theory Spec2Isabelle
  imports Complex_Main
begin

section \<open>Shared vocabulary: errors, replies of the backend, observable effects\<close>

text \<open>
  The application calls a hosted backend through the \<^verbatim>\<open>supabase\<close> client. Every call is an
  \<^verbatim>\<open>await\<close>; it either resolves to an object with a \<^verbatim>\<open>data\<close> and an \<^verbatim>\<open>error\<close> field, or the
  awaited promise rejects and the \<^verbatim>\<open>await\<close> throws. The handlers below test \<^verbatim>\<open>error\<close>, throw it
  again, and catch whatever was thrown, so both ways of failing are kept apart in the model.
\<close>

record pg_error =
  code :: string
  message :: string

datatype 'a reply = Reply "'a option" "pg_error option" | Throws pg_error

text \<open>What a \<^verbatim>\<open>try { const { error } = await ...; if (error) throw error; }\<close> block throws.\<close>

fun failure :: "'a reply \<Rightarrow> pg_error option" where
  "failure (Reply d e) = e"
| "failure (Throws e) = Some e"

text \<open>A fault injected into the backend for one call; \<open>None\<close> is a backend that works.\<close>

datatype fault = ErrorResult pg_error | Rejected pg_error

fun fault_error :: "fault \<Rightarrow> pg_error" where
  "fault_error (ErrorResult e) = e"
| "fault_error (Rejected e) = e"

definition respond :: "fault option \<Rightarrow> 'a \<Rightarrow> 'a reply" where
  "respond f v =
     (case f of
        None \<Rightarrow> Reply (Some v) None
      | Some (ErrorResult e) \<Rightarrow> Reply None (Some e)
      | Some (Rejected e) \<Rightarrow> Throws e)"

record auth_user =
  uid :: string

datatype table = Likes | Bookmarks | Follows

text \<open>
  A mutating request on a relation table: the row is keyed by the object acted on (a post or
  a restaurant) and the acting user.
\<close>

datatype request = Delete table string string | Insert table string string

datatype effect =
    RouterPush string
  | RouterReplace string
  | RouterBack
  | Supabase request
  | ConsoleError string pg_error
  | MarkStoryAsSeen string string
  | Alert string
  | UnhandledRejection pg_error

fun is_navigation :: "effect \<Rightarrow> bool" where
  "is_navigation (RouterPush p) = True"
| "is_navigation (RouterReplace p) = True"
| "is_navigation RouterBack = True"
| "is_navigation e = False"

fun is_alert :: "effect \<Rightarrow> bool" where
  "is_alert (Alert m) = True"
| "is_alert e = False"

text \<open>JavaScript truthiness of a string: the empty string is falsy.\<close>

definition truthy :: "string \<Rightarrow> bool" where
  "truthy s = (s \<noteq> [])"


section \<open>JavaScript numbers that hold counts\<close>

text \<open>
  The counters of the screens are JavaScript numbers, that is IEEE doubles, and they hold
  integers. \<^verbatim>\<open>prev + 1\<close> and \<^verbatim>\<open>prev - 1\<close> are the exact sum and difference rounded to the
  nearest double, a tie going to the double with the even significand. Doubles of magnitude
  below \<open>2^53\<close> are spaced by 1; the spacing \<open>ulp\<close> doubles from each binade to the next.
  Adding or subtracting 1 never leaves the finite doubles.
\<close>

fun ulp :: "nat \<Rightarrow> nat" where
  "ulp m = (if m < 2 ^ 53 then 1 else 2 * ulp (m div 2))"

declare ulp.simps [simp del]

definition round_nat :: "nat \<Rightarrow> nat" where
  "round_nat m =
     (let u = ulp m; q = m div u; r = m mod u
      in if 2 * r < u then q * u
         else if u < 2 * r then (q + 1) * u
         else if even q then q * u
         else (q + 1) * u)"

definition js_round :: "int \<Rightarrow> int" where
  "js_round n = (if n < 0 then - int (round_nat (nat (- n))) else int (round_nat (nat n)))"

definition js_add :: "int \<Rightarrow> int \<Rightarrow> int" where
  "js_add a b = js_round (a + b)"

definition js_sub :: "int \<Rightarrow> int \<Rightarrow> int" where
  "js_sub a b = js_round (a - b)"


section \<open>PostCard: like and bookmark toggles\<close>

text \<open>
  The state hooks of \<^verbatim>\<open>PostCard\<close> that the two toggles read and write. \<^verbatim>\<open>likeCount\<close> is a
  JavaScript number holding a count: an integer that is a double, with the arithmetic of
  doubles.
\<close>

record card =
  isLiked :: bool
  likeCount :: int
  isBookmarked :: bool
  loading_likes :: bool
  loading_bookmark :: bool

text \<open>
  \<^verbatim>\<open>toggleLike\<close> is an async function with one \<^verbatim>\<open>await\<close>. \<open>toggleLike_begin\<close> is the part that runs
  synchronously when the handler is invoked, up to the moment the request is handed to the
  client; it returns the state at that moment, the effects so far, and \<^verbatim>\<open>wasLiked\<close> when a
  request is outstanding (the continuation that the \<^verbatim>\<open>await\<close> leaves behind).
  \<open>toggleLike_settle\<close> is the part that runs when the request has settled.
\<close>

definition toggleLike_begin ::
  "auth_user option \<Rightarrow> string \<Rightarrow> card \<Rightarrow> card \<times> effect list \<times> bool option" where
  "toggleLike_begin user post_id st =
     (case user of
        None \<Rightarrow> (st, [RouterPush ''/login''], None)
      | Some u \<Rightarrow>
          if loading_likes st then (st, [], None)
          else
            let wasLiked = isLiked st;
                st1 = st\<lparr>isLiked := \<not> wasLiked\<rparr>;
                st2 = st1\<lparr>likeCount :=
                        (if wasLiked then js_sub (likeCount st1) 1 else js_add (likeCount st1) 1)\<rparr>;
                st3 = st2\<lparr>loading_likes := True\<rparr>
            in (st3,
                [Supabase (if wasLiked then Delete Likes post_id (uid u)
                           else Insert Likes post_id (uid u))],
                Some wasLiked))"

definition toggleLike_settle :: "bool \<Rightarrow> unit reply \<Rightarrow> card \<Rightarrow> card \<times> effect list" where
  "toggleLike_settle wasLiked r st =
     (case failure r of
        None \<Rightarrow> (st\<lparr>loading_likes := False\<rparr>, [])
      | Some e \<Rightarrow>
          let st1 = st\<lparr>isLiked := wasLiked\<rparr>;
              st2 = st1\<lparr>likeCount :=
                      (if wasLiked then js_add (likeCount st1) 1 else js_sub (likeCount st1) 1)\<rparr>
          in (st2\<lparr>loading_likes := False\<rparr>, [ConsoleError ''Error toggling like:'' e]))"

text \<open>The whole handler when nothing else touches the card between the two parts.\<close>

definition toggleLike ::
  "auth_user option \<Rightarrow> string \<Rightarrow> unit reply \<Rightarrow> card \<Rightarrow> card \<times> effect list" where
  "toggleLike user post_id r st =
     (case toggleLike_begin user post_id st of
        (st1, fx, None) \<Rightarrow> (st1, fx)
      | (st1, fx, Some wasLiked) \<Rightarrow>
          (case toggleLike_settle wasLiked r st1 of (st2, fx2) \<Rightarrow> (st2, fx @ fx2)))"

definition toggleBookmark_begin ::
  "auth_user option \<Rightarrow> string \<Rightarrow> card \<Rightarrow> card \<times> effect list \<times> bool option" where
  "toggleBookmark_begin user post_id st =
     (case user of
        None \<Rightarrow> (st, [RouterPush ''/login''], None)
      | Some u \<Rightarrow>
          if loading_bookmark st then (st, [], None)
          else
            let wasBookmarked = isBookmarked st;
                st1 = st\<lparr>isBookmarked := \<not> wasBookmarked\<rparr>;
                st2 = st1\<lparr>loading_bookmark := True\<rparr>
            in (st2,
                [Supabase (if wasBookmarked then Delete Bookmarks post_id (uid u)
                           else Insert Bookmarks post_id (uid u))],
                Some wasBookmarked))"

definition toggleBookmark_settle :: "bool \<Rightarrow> unit reply \<Rightarrow> card \<Rightarrow> card \<times> effect list" where
  "toggleBookmark_settle wasBookmarked r st =
     (case failure r of
        None \<Rightarrow> (st\<lparr>loading_bookmark := False\<rparr>, [])
      | Some e \<Rightarrow>
          (st\<lparr>isBookmarked := wasBookmarked, loading_bookmark := False\<rparr>,
           [ConsoleError ''Error toggling bookmark:'' e]))"

definition toggleBookmark ::
  "auth_user option \<Rightarrow> string \<Rightarrow> unit reply \<Rightarrow> card \<Rightarrow> card \<times> effect list" where
  "toggleBookmark user post_id r st =
     (case toggleBookmark_begin user post_id st of
        (st1, fx, None) \<Rightarrow> (st1, fx)
      | (st1, fx, Some wasBookmarked) \<Rightarrow>
          (case toggleBookmark_settle wasBookmarked r st1 of (st2, fx2) \<Rightarrow> (st2, fx @ fx2)))"


section \<open>Restaurant profile screen: follow toggle\<close>

record restaurant_screen =
  isFollowing :: bool
  followersCount :: int

text \<open>
  \<^verbatim>\<open>handleFollow\<close> first awaits \<^verbatim>\<open>supabase.auth.getUser()\<close>; its answer is the first argument.
  \<^verbatim>\<open>isFollowing\<close> is the value of the render in which the handler was invoked. The state hooks
  are written only after the awaited request, in the branch that did not throw.
\<close>

definition handleFollow_begin ::
  "auth_user reply \<Rightarrow> string \<Rightarrow> restaurant_screen \<Rightarrow>
     restaurant_screen \<times> effect list \<times> bool option" where
  "handleFollow_begin getUser restaurant_id st =
     (case getUser of
        Throws e \<Rightarrow> (st, [ConsoleError ''Error following restaurant:'' e], None)
      | Reply user err \<Rightarrow>
          (case user of
             None \<Rightarrow> (st, [RouterPush ''/login''], None)
           | Some u \<Rightarrow>
               (st,
                [Supabase (if isFollowing st then Delete Follows restaurant_id (uid u)
                           else Insert Follows restaurant_id (uid u))],
                Some (isFollowing st))))"

definition handleFollow_settle ::
  "bool \<Rightarrow> unit reply \<Rightarrow> restaurant_screen \<Rightarrow> restaurant_screen \<times> effect list" where
  "handleFollow_settle wasFollowing r st =
     (case failure r of
        Some e \<Rightarrow> (st, [ConsoleError ''Error following restaurant:'' e])
      | None \<Rightarrow>
          if wasFollowing
          then (st\<lparr>isFollowing := False, followersCount := js_sub (followersCount st) 1\<rparr>, [])
          else (st\<lparr>isFollowing := True, followersCount := js_add (followersCount st) 1\<rparr>, []))"

definition handleFollow ::
  "auth_user reply \<Rightarrow> string \<Rightarrow> unit reply \<Rightarrow> restaurant_screen \<Rightarrow>
     restaurant_screen \<times> effect list" where
  "handleFollow getUser restaurant_id r st =
     (case handleFollow_begin getUser restaurant_id st of
        (st1, fx, None) \<Rightarrow> (st1, fx)
      | (st1, fx, Some wasFollowing) \<Rightarrow>
          (case handleFollow_settle wasFollowing r st1 of (st2, fx2) \<Rightarrow> (st2, fx @ fx2)))"



section \<open>Post detail screen: follow toggle\<close>

text \<open>
  The hook \<^verbatim>\<open>useFollowStatus\<close> of the post detail screen keeps the same two state hooks,
  \<^verbatim>\<open>isFollowing\<close> and \<^verbatim>\<open>followersCount\<close>. Its \<^verbatim>\<open>toggleFollow\<close> answers whether the toggle went
  through; the first argument is the answer of \<^verbatim>\<open>supabase.auth.getUser()\<close>.
\<close>

definition toggleFollow ::
  "auth_user reply \<Rightarrow> string \<Rightarrow> unit reply \<Rightarrow> restaurant_screen \<Rightarrow>
     restaurant_screen \<times> effect list \<times> bool" where
  "toggleFollow getUser restaurantId r st =
     (case getUser of
        Throws e \<Rightarrow> (st, [ConsoleError ''Error toggling follow:'' e], False)
      | Reply user err \<Rightarrow>
          (case user of
             None \<Rightarrow> (st, [], False)
           | Some u \<Rightarrow>
               (case failure r of
                  Some e \<Rightarrow>
                    (st,
                     [Supabase (if isFollowing st then Delete Follows restaurantId (uid u)
                                else Insert Follows restaurantId (uid u)),
                      ConsoleError ''Error toggling follow:'' e],
                     False)
                | None \<Rightarrow>
                    if isFollowing st
                    then (st\<lparr>isFollowing := False, followersCount := js_sub (followersCount st) 1\<rparr>,
                          [Supabase (Delete Follows restaurantId (uid u))], True)
                    else (st\<lparr>isFollowing := True, followersCount := js_add (followersCount st) 1\<rparr>,
                          [Supabase (Insert Follows restaurantId (uid u))], True))))"

text \<open>
  \<^verbatim>\<open>handleFollow\<close> of the post detail screen: after a toggle that did not go through it asks
  for the user once more, outside of any \<^verbatim>\<open>try\<close>, and goes to the login route when there is
  none.
\<close>

definition handleFollow_detail ::
  "string \<Rightarrow> auth_user reply \<Rightarrow> unit reply \<Rightarrow> auth_user reply \<Rightarrow> restaurant_screen \<Rightarrow>
     restaurant_screen \<times> effect list" where
  "handleFollow_detail actualRestaurantId getUser r getUser_again st =
     (if truthy actualRestaurantId
      then
        (case toggleFollow getUser actualRestaurantId r st of
           (st1, fx, success) \<Rightarrow>
             if success then (st1, fx)
             else
               (case getUser_again of
                  Throws e \<Rightarrow> (st1, fx @ [UnhandledRejection e])
                | Reply user err \<Rightarrow>
                    (case user of
                       None \<Rightarrow> (st1, fx @ [RouterPush ''/login''])
                     | Some u \<Rightarrow> (st1, fx))))
      else (st, []))"

text \<open>Concrete values used in the examples.\<close>

definition alice :: auth_user where
  "alice = \<lparr>uid = ''u-alice''\<rparr>"

definition jwt_expired :: pg_error where
  "jwt_expired = \<lparr>code = ''PGRST301'', message = ''JWT expired''\<rparr>"

definition network_down :: pg_error where
  "network_down = \<lparr>code = '''', message = ''Network request failed''\<rparr>"

definition card5 :: card where
  "card5 = \<lparr>isLiked = False, likeCount = 5, isBookmarked = False,
            loading_likes = False, loading_bookmark = False\<rparr>"

definition screen0 :: restaurant_screen where
  "screen0 = \<lparr>isFollowing = False, followersCount = 0\<rparr>"


section \<open>The stories library\<close>

text \<open>
  The \<^verbatim>\<open>stories\<close> table. Timestamps are instants on one time line (milliseconds); the column
  \<^verbatim>\<open>id\<close> is called \<open>sid\<close> here. A selected row carries the listed columns and the embedded
  profile of the author instead of \<^verbatim>\<open>is_active\<close>.
\<close>

record profile =
  profile_user_id :: string
  username :: string
  avatar_url :: string

record story_cols =
  sid :: string
  image_url :: string
  created_at :: int
  expires_at :: int
  user_id :: string

record story = story_cols +
  is_active :: bool

record story_row = story_cols +
  profiles :: "profile option"

definition select_cols :: "profile list \<Rightarrow> story \<Rightarrow> story_row" where
  "select_cols profs s =
     \<lparr>sid = sid s, image_url = image_url s, created_at = created_at s,
      expires_at = expires_at s, user_id = user_id s,
      profiles = find (\<lambda>p. profile_user_id p = user_id s) profs\<rparr>"

text \<open>
  What the backend answers to the query built in \<^verbatim>\<open>getUserStories\<close> (and, with the same
  filters, in the viewer): \<^verbatim>\<open>.eq('user_id', userId).eq('is_active', true).gt('expires_at', now)
  .order('created_at', { ascending: true })\<close>.
\<close>

definition user_stories_rows ::
  "story list \<Rightarrow> profile list \<Rightarrow> string \<Rightarrow> int \<Rightarrow> story_row list" where
  "user_stories_rows tbl profs userId now =
     map (select_cols profs)
       (sort_key created_at
          (filter (\<lambda>s. user_id s = userId \<and> is_active s = True \<and> expires_at s > now) tbl))"

definition select_user_stories ::
  "fault option \<Rightarrow> story list \<Rightarrow> profile list \<Rightarrow> string \<Rightarrow> int \<Rightarrow> story_row list reply" where
  "select_user_stories f tbl profs userId now =
     respond f (user_stories_rows tbl profs userId now)"

definition getUserStories ::
  "fault option \<Rightarrow> story list \<Rightarrow> profile list \<Rightarrow> string \<Rightarrow> int \<Rightarrow>
     story_row list \<times> effect list" where
  "getUserStories f tbl profs userId now =
     (case select_user_stories f tbl profs userId now of
        Throws e \<Rightarrow> ([], [ConsoleError ''Error fetching user stories:'' e])
      | Reply data error \<Rightarrow>
          (case error of
             Some e \<Rightarrow> ([], [ConsoleError ''Error fetching user stories:'' e])
           | None \<Rightarrow> (case data of Some rows \<Rightarrow> (rows, []) | None \<Rightarrow> ([], []))))"

text \<open>
  The \<^verbatim>\<open>seen_stories\<close> table: rows \<open>(story_id, user_id)\<close>. The upsert names both columns as
  its conflict target: a row with the same pair is overwritten in place, otherwise the row is
  added.
\<close>

type_synonym seen_story = "string \<times> string"

definition upsert_seen :: "seen_story \<Rightarrow> seen_story list \<Rightarrow> seen_story list" where
  "upsert_seen row tbl =
     (if row \<in> set tbl then map (\<lambda>r. if r = row then row else r) tbl else tbl @ [row])"

text \<open>
  The functions of the library return the table after the call, what was written to the
  console, and the error that leaves the function towards its caller (\<open>None\<close> when the
  function returns normally).
\<close>

definition markStoryAsSeen ::
  "fault option \<Rightarrow> seen_story list \<Rightarrow> string \<Rightarrow> string \<Rightarrow>
     seen_story list \<times> effect list \<times> pg_error option" where
  "markStoryAsSeen f tbl storyId userId =
     (case f of
        None \<Rightarrow> (upsert_seen (storyId, userId) tbl, [], None)
      | Some x \<Rightarrow> (tbl, [ConsoleError ''Error marking story as seen:'' (fault_error x)], None))"

text \<open>
  Successive calls for one pair, each with its own fault or none: the table after the last
  call, everything written to the console, and what each call handed to its caller.
\<close>

fun markStoryAsSeen_calls ::
  "fault option list \<Rightarrow> seen_story list \<Rightarrow> string \<Rightarrow> string \<Rightarrow>
     seen_story list \<times> effect list \<times> pg_error option list" where
  "markStoryAsSeen_calls [] tbl storyId userId = (tbl, [], [])"
| "markStoryAsSeen_calls (f # fs) tbl storyId userId =
     (case markStoryAsSeen f tbl storyId userId of
        (tbl1, logged, thrown) \<Rightarrow>
          (case markStoryAsSeen_calls fs tbl1 storyId userId of
             (tbl2, logged_later, thrown_later) \<Rightarrow>
               (tbl2, logged @ logged_later, thrown # thrown_later)))"

text \<open>The faults among a sequence of calls, in order.\<close>

fun failed_calls :: "fault option list \<Rightarrow> fault list" where
  "failed_calls [] = []"
| "failed_calls (None # fs) = failed_calls fs"
| "failed_calls (Some x # fs) = x # failed_calls fs"

definition deleteStory ::
  "fault option \<Rightarrow> story list \<Rightarrow> string \<Rightarrow> string \<Rightarrow>
     story list \<times> effect list \<times> pg_error option" where
  "deleteStory f tbl storyId userId =
     (case f of
        None \<Rightarrow>
          (map (\<lambda>s. if sid s = storyId \<and> user_id s = userId then s\<lparr>is_active := False\<rparr> else s) tbl,
           [], None)
      | Some x \<Rightarrow>
          (tbl, [ConsoleError ''Error deleting story:'' (fault_error x)], Some (fault_error x)))"


section \<open>The story viewer screen\<close>

text \<open>
  The state hooks of the screen, the value of the animated \<^verbatim>\<open>progress\<close>, and whether its
  animation is running (it runs from \<^verbatim>\<open>startProgressAnimation\<close> until it has reached 1 or has
  been stopped).
\<close>

record viewer =
  stories :: "story_row list"
  currentIndex :: nat
  loading :: bool
  progress :: real
  animating :: bool

definition initial_viewer :: viewer where
  "initial_viewer =
     \<lparr>stories = [], currentIndex = 0, loading = True, progress = 0, animating = False\<rparr>"

text \<open>Where the viewer leaves to when there is nothing to show: \<^verbatim>\<open>userId === user?.id\<close>.\<close>

definition leave :: "string \<Rightarrow> auth_user option \<Rightarrow> effect" where
  "leave userId user =
     (if map_option uid user = Some userId then RouterReplace ''/stories/create-story''
      else RouterBack)"

text \<open>The \<^verbatim>\<open>finally\<close> block of \<^verbatim>\<open>fetchStories\<close>.\<close>

definition fetchStories_finally :: "viewer \<Rightarrow> viewer" where
  "fetchStories_finally st = st\<lparr>loading := False\<rparr>"

text \<open>
  \<^verbatim>\<open>fetchStories\<close> from the answer to its query on. With rows and a signed-in user the
  function stops at \<^verbatim>\<open>await markStoryAsSeen(...)\<close> with the stories set and \<^verbatim>\<open>loading\<close> still
  true; the third component says that this call is awaited, and \<open>fetchStories_finally\<close>
  runs when it has returned (\<^verbatim>\<open>markStoryAsSeen\<close> never throws). On every other path the
  \<^verbatim>\<open>finally\<close> block runs at once.
\<close>

definition fetchStories ::
  "string \<Rightarrow> auth_user option \<Rightarrow> story_row list reply \<Rightarrow> viewer \<Rightarrow>
     viewer \<times> effect list \<times> bool" where
  "fetchStories userId user r st =
     (case r of
        Throws e \<Rightarrow>
          (fetchStories_finally st,
           [ConsoleError ''Error fetching stories:'' e, leave userId user], False)
      | Reply data error \<Rightarrow>
          (case error of
             Some e \<Rightarrow>
               (fetchStories_finally st,
                [ConsoleError ''Error fetching stories:'' e,
                 ConsoleError ''Error fetching stories:'' e, leave userId user], False)
           | None \<Rightarrow>
               (case data of
                  None \<Rightarrow> (fetchStories_finally st, [leave userId user], False)
                | Some [] \<Rightarrow> (fetchStories_finally st, [leave userId user], False)
                | Some (first # rest) \<Rightarrow>
                    (case user of
                       None \<Rightarrow> (fetchStories_finally (st\<lparr>stories := first # rest\<rparr>), [], False)
                     | Some u \<Rightarrow>
                         if truthy (uid u)
                         then (st\<lparr>stories := first # rest\<rparr>,
                               [MarkStoryAsSeen (sid first) (uid u)], True)
                         else (fetchStories_finally (st\<lparr>stories := first # rest\<rparr>), [], False)))))"

definition startProgressAnimation :: "viewer \<Rightarrow> viewer" where
  "startProgressAnimation st = st\<lparr>progress := 0, animating := True\<rparr>"

text \<open>The effect hook on \<^verbatim>\<open>[currentIndex, stories]\<close>, run after a render that changed one of them.\<close>

definition playback_effect :: "viewer \<Rightarrow> viewer" where
  "playback_effect st = (if length (stories st) > 0 then startProgressAnimation st else st)"

text \<open>
  Mounting the screen: the fetch runs only for a truthy route parameter, and the state is
  the one after the render that follows it.
\<close>

definition mount ::
  "string \<Rightarrow> auth_user option \<Rightarrow> story_row list reply \<Rightarrow> viewer \<times> effect list \<times> bool" where
  "mount userId user r =
     (if truthy userId
      then (case fetchStories userId user r initial_viewer of
              (st, fx, awaited) \<Rightarrow> (playback_effect st, fx, awaited))
      else (initial_viewer, [], False))"

definition goToNextStory :: "auth_user option \<Rightarrow> viewer \<Rightarrow> viewer \<times> effect list" where
  "goToNextStory user st =
     (if int (currentIndex st) < int (length (stories st)) - 1
      then
        let nextIndex = currentIndex st + 1
        in (st\<lparr>currentIndex := nextIndex\<rparr>,
            (case user of
               None \<Rightarrow> []
             | Some u \<Rightarrow>
                 if truthy (uid u) \<and> nextIndex < length (stories st)
                 then [MarkStoryAsSeen (sid (stories st ! nextIndex)) (uid u)]
                 else []))
      else (st, [RouterBack]))"

text \<open>
  The running animation of the current item reaches the end of its 5000 ms: \<^verbatim>\<open>progress\<close> is
  1, the animation is over, the completion callback calls \<^verbatim>\<open>goToNextStory\<close>, and a changed
  index starts the animation again. Nothing happens when no animation is running.
\<close>

definition animation_finished :: "auth_user option \<Rightarrow> viewer \<Rightarrow> viewer \<times> effect list" where
  "animation_finished user st =
     (if animating st
      then
        (case goToNextStory user (st\<lparr>progress := 1, animating := False\<rparr>) of
           (st1, fx) \<Rightarrow>
             (if currentIndex st1 = currentIndex st then st1 else playback_effect st1, fx))
      else (st, []))"

text \<open>
  Letting the timers expire one after another, at most \<open>n\<close> of them; the session is over
  once the screen has navigated back.
\<close>

fun play :: "nat \<Rightarrow> auth_user option \<Rightarrow> viewer \<Rightarrow> viewer \<times> effect list" where
  "play 0 user st = (st, [])"
| "play (Suc n) user st =
     (case animation_finished user st of
        (st1, fx1) \<Rightarrow>
          if RouterBack \<in> set fx1 then (st1, fx1)
          else (case play n user st1 of (st2, fx2) \<Rightarrow> (st2, fx1 @ fx2)))"

text \<open>
  A whole session: the screen is mounted, an awaited \<^verbatim>\<open>markStoryAsSeen\<close> returns while the
  first story is showing, and the timers expire. (The moment at which the call returns does
  not matter for what follows: \<^verbatim>\<open>loading\<close> is not read by the playback.)
\<close>

definition watch ::
  "nat \<Rightarrow> string \<Rightarrow> auth_user option \<Rightarrow> story_row list reply \<Rightarrow> viewer \<times> effect list" where
  "watch n userId user r =
     (case mount userId user r of
        (st0, fx0, awaited) \<Rightarrow>
          (case play n user (if awaited then fetchStories_finally st0 else st0) of
             (st1, fx1) \<Rightarrow> (st1, fx0 @ fx1)))"

fun seen_calls :: "effect list \<Rightarrow> (string \<times> string) list" where
  "seen_calls [] = []"
| "seen_calls (MarkStoryAsSeen s u # fx) = (s, u) # seen_calls fx"
| "seen_calls (e # fx) = seen_calls fx"


text \<open>Three stories used in the examples: two of one author, one of another.\<close>

definition story_a :: story where
  "story_a = \<lparr>sid = ''s-a'', image_url = ''a.jpg'', created_at = 200, expires_at = 1200,
              user_id = ''u-bob'', is_active = True\<rparr>"

definition story_b :: story where
  "story_b = \<lparr>sid = ''s-b'', image_url = ''b.jpg'', created_at = 0, expires_at = 1000,
              user_id = ''u-bob'', is_active = True\<rparr>"

definition story_c :: story where
  "story_c = \<lparr>sid = ''s-c'', image_url = ''c.jpg'', created_at = 100, expires_at = 1100,
              user_id = ''u-carol'', is_active = True\<rparr>"


section \<open>Counts in the exact range of a JavaScript number\<close>

lemma ulp_small: "m < 2 ^ 53 \<Longrightarrow> ulp m = 1"
  by (simp add: ulp.simps)

lemma round_nat_exact:
  assumes "m \<le> 2 ^ 53"
  shows "round_nat m = m"
proof (cases "m < 2 ^ 53")
  case True
  then show ?thesis by (simp add: round_nat_def ulp_small)
next
  case False
  with assms have m: "m = 2 ^ 53" by simp
  have "ulp (2 ^ 53) = 2 * ulp (2 ^ 52)"
    by (subst ulp.simps) simp
  then have "ulp (2 ^ 53) = 2" by (simp add: ulp_small)
  with m show ?thesis by (simp add: round_nat_def)
qed

lemma js_round_exact:
  assumes "\<bar>n\<bar> \<le> 2 ^ 53"
  shows "js_round n = n"
proof (cases "n < 0")
  case True
  with assms have "nat (- n) \<le> 2 ^ 53" by simp
  then have "round_nat (nat (- n)) = nat (- n)" by (rule round_nat_exact)
  with True show ?thesis by (simp add: js_round_def)
next
  case False
  with assms have "nat n \<le> 2 ^ 53" by simp
  then have "round_nat (nat n) = nat n" by (rule round_nat_exact)
  with False show ?thesis by (simp add: js_round_def)
qed

lemma js_add_one: "\<bar>n\<bar> < 2 ^ 53 \<Longrightarrow> js_add n 1 = n + 1"
  and js_sub_one: "\<bar>n\<bar> < 2 ^ 53 \<Longrightarrow> js_sub n 1 = n - 1"
  by (simp_all add: js_add_def js_sub_def js_round_exact)

text \<open>Beyond that range a step of 1 is lost or doubled by the rounding.\<close>

lemma js_round_beyond:
  "js_add (2 ^ 53) 1 = 2 ^ 53" "js_sub (2 ^ 53) 1 = 2 ^ 53 - 1" "js_add (2 ^ 53 + 2) 1 = 2 ^ 53 + 4"
proof -
  have "ulp 9007199254740993 = 2 * ulp 4503599627370496"
    and "ulp 9007199254740995 = 2 * ulp 4503599627370497"
    by (subst ulp.simps, simp)+
  then have u: "ulp 9007199254740993 = 2" "ulp 9007199254740995 = 2"
    by (simp_all add: ulp_small)
  show "js_add (2 ^ 53) 1 = 2 ^ 53" "js_add (2 ^ 53 + 2) 1 = 2 ^ 53 + 4"
    by (simp_all add: js_add_def js_round_def round_nat_def u)
  show "js_sub (2 ^ 53) 1 = 2 ^ 53 - 1"
    by (simp add: js_sub_def js_round_exact)
qed


section \<open>Relation toggles: what a failed or refused toggle leaves behind\<close>

lemma toggleLike_failed:
  assumes "failure r = Some e" and "\<bar>likeCount st\<bar> < 2 ^ 53"
  shows "fst (toggleLike user post_id r st) = st"
proof (cases user)
  case None
  then show ?thesis by (simp add: toggleLike_def toggleLike_begin_def)
next
  case (Some u)
  show ?thesis
  proof (cases "loading_likes st")
    case True
    with Some show ?thesis by (simp add: toggleLike_def toggleLike_begin_def)
  next
    case False
    have up: "js_sub (js_add (likeCount st) 1) 1 = likeCount st"
      using assms(2) by (simp add: js_add_one js_sub_def js_round_exact)
    have down: "js_add (js_sub (likeCount st) 1) 1 = likeCount st"
      using assms(2) by (simp add: js_sub_one js_add_def js_round_exact)
    from False Some assms(1) up down show ?thesis
      by (cases st) (simp add: toggleLike_def toggleLike_begin_def toggleLike_settle_def Let_def)
  qed
qed

lemma toggleBookmark_failed:
  assumes "failure r = Some e"
  shows "fst (toggleBookmark user post_id r st) = st"
proof (cases user)
  case None
  then show ?thesis by (simp add: toggleBookmark_def toggleBookmark_begin_def)
next
  case (Some u)
  show ?thesis
  proof (cases "loading_bookmark st")
    case True
    with Some show ?thesis by (simp add: toggleBookmark_def toggleBookmark_begin_def)
  next
    case False
    with Some assms show ?thesis
      by (cases st)
        (simp add: toggleBookmark_def toggleBookmark_begin_def toggleBookmark_settle_def Let_def)
  qed
qed

lemma handleFollow_failed:
  assumes "failure r = Some e"
  shows "fst (handleFollow getUser rid r st) = st"
  using assms
  by (simp add: handleFollow_def handleFollow_begin_def handleFollow_settle_def
      split: reply.splits option.splits)

text \<open>
  Claim C1 (rollback law). Whenever the insert or delete issued by a toggle fails, by an
  error in the reply or by a rejected promise, the relation flag and the counter after the
  toggle has settled are the ones from before it was invoked: \<^verbatim>\<open>isLiked\<close> and \<^verbatim>\<open>likeCount\<close>
  for a like, \<^verbatim>\<open>isBookmarked\<close> for a bookmark, \<^verbatim>\<open>isFollowing\<close> and \<^verbatim>\<open>followersCount\<close> for a
  follow. In fact the whole local state is the one from before. The like counter is a count
  in the range where a JavaScript number is exact, of magnitude below \<open>2^53\<close>; the follow
  toggle does no arithmetic on a failure and needs no bound.
\<close>

theorem rollback_law:
  assumes "failure r = Some e" and "\<bar>likeCount st\<bar> < 2 ^ 53"
  shows "isLiked (fst (toggleLike user post_id r st)) = isLiked st
       \<and> likeCount (fst (toggleLike user post_id r st)) = likeCount st
       \<and> isBookmarked (fst (toggleBookmark user post_id r st)) = isBookmarked st
       \<and> isFollowing (fst (handleFollow getUser restaurant_id r st')) = isFollowing st'
       \<and> followersCount (fst (handleFollow getUser restaurant_id r st')) = followersCount st'
       \<and> fst (toggleLike user post_id r st) = st
       \<and> fst (toggleBookmark user post_id r st) = st
       \<and> fst (handleFollow getUser restaurant_id r st') = st'"
  using assms by (simp add: toggleLike_failed toggleBookmark_failed handleFollow_failed)

text \<open>
  The scenario of a post that is not liked, with counter 5: the optimistic write makes it
  liked with counter 6, the failed insert brings back not liked and 5.
\<close>

theorem rollback_law_witness:
  "failure (Reply None (Some network_down) :: unit reply) = Some network_down
   \<and> \<bar>likeCount card5\<bar> < 2 ^ 53
   \<and> toggleLike_begin (Some alice) ''p1'' card5 =
       (card5\<lparr>isLiked := True, likeCount := 6, loading_likes := True\<rparr>,
        [Supabase (Insert Likes ''p1'' ''u-alice'')], Some False)
   \<and> isLiked (fst (toggleLike (Some alice) ''p1'' (Reply None (Some network_down)) card5)) = False
   \<and> likeCount (fst (toggleLike (Some alice) ''p1'' (Reply None (Some network_down)) card5)) = 5
   \<and> isBookmarked
        (fst (toggleBookmark (Some alice) ''p1'' (Reply None (Some network_down)) card5)) = False
   \<and> isFollowing
        (fst (handleFollow (Reply (Some alice) None) ''r1'' (Reply None (Some network_down))
           screen0)) = False
   \<and> followersCount
        (fst (handleFollow (Reply (Some alice) None) ''r1'' (Reply None (Some network_down))
           screen0)) = 0"
  using rollback_law [of "Reply None (Some network_down)" network_down card5 "Some alice" "''p1''"
      "Reply (Some alice) None" "''r1''" screen0]
  by (simp add: card5_def screen0_def toggleLike_begin_def alice_def js_add_one)

text \<open>
  Claim C10 (a toggle without a session is inert). With no user, the like toggle and the
  bookmark toggle issue no request and leave the card as it was, whatever the backend would
  have answered; the one effect is the navigation to \<^verbatim>\<open>/login\<close>, and nothing stays pending.
\<close>

theorem unauthenticated_toggle_inert:
  "toggleLike_begin None post_id st = (st, [RouterPush ''/login''], None)
   \<and> toggleBookmark_begin None post_id st = (st, [RouterPush ''/login''], None)
   \<and> toggleLike None post_id r st = (st, [RouterPush ''/login''])
   \<and> toggleBookmark None post_id r st = (st, [RouterPush ''/login''])"
  by (simp add: toggleLike_def toggleLike_begin_def toggleBookmark_def toggleBookmark_begin_def)


section \<open>Relation toggles: ordering, in-flight guard, failures\<close>

text \<open>
  Claim C2 as stated does not hold for the follow toggle: when \<^verbatim>\<open>handleFollow\<close> hands the
  insert to the client, \<^verbatim>\<open>isFollowing\<close> still has its old value.
\<close>

theorem follow_written_after_request_counterexample:
  "fst (snd (handleFollow_begin (Reply (Some alice) None) ''r1'' screen0)) =
     [Supabase (Insert Follows ''r1'' ''u-alice'')]
   \<and> isFollowing (fst (handleFollow_begin (Reply (Some alice) None) ''r1'' screen0)) \<noteq>
       (\<not> isFollowing screen0)"
  by (simp add: handleFollow_begin_def screen0_def alice_def)

text \<open>
  Claim C2 (order of the optimistic write), as amended. With a signed-in user and no toggle
  of that kind in flight, the like toggle and the bookmark toggle of \<^verbatim>\<open>PostCard\<close> have
  negated the flag (and the like toggle has moved the counter by one, up when activating,
  down when deactivating) at the moment the insert or the delete is issued. The follow
  toggle of the restaurant profile screen issues its request on the unchanged state, and
  writes \<^verbatim>\<open>isFollowing\<close> and \<^verbatim>\<open>followersCount\<close> only when the request has succeeded. The
  counters are counts of magnitude below \<open>2^53\<close>, where a step of 1 is exact.
\<close>

theorem optimistic_write_ordering:
  assumes "user = Some u"
    and "\<bar>likeCount st\<bar> < 2 ^ 53" and "\<bar>followersCount st'\<bar> < 2 ^ 53"
  shows "(\<not> loading_likes st \<longrightarrow>
            toggleLike_begin user post_id st =
              (st\<lparr>isLiked := \<not> isLiked st,
                  likeCount := (if isLiked st then likeCount st - 1 else likeCount st + 1),
                  loading_likes := True\<rparr>,
               [Supabase (if isLiked st then Delete Likes post_id (uid u)
                          else Insert Likes post_id (uid u))],
               Some (isLiked st)))
       \<and> (\<not> loading_bookmark st \<longrightarrow>
            toggleBookmark_begin user post_id st =
              (st\<lparr>isBookmarked := \<not> isBookmarked st, loading_bookmark := True\<rparr>,
               [Supabase (if isBookmarked st then Delete Bookmarks post_id (uid u)
                          else Insert Bookmarks post_id (uid u))],
               Some (isBookmarked st)))
       \<and> handleFollow_begin (Reply user err) restaurant_id st' =
            (st',
             [Supabase (if isFollowing st' then Delete Follows restaurant_id (uid u)
                        else Insert Follows restaurant_id (uid u))],
             Some (isFollowing st'))
       \<and> (failure r = None \<longrightarrow>
            handleFollow_settle (isFollowing st') r st' =
              (st'\<lparr>isFollowing := \<not> isFollowing st',
                   followersCount :=
                     (if isFollowing st' then followersCount st' - 1 else followersCount st' + 1)\<rparr>,
               []))"
  using assms
  by (simp add: toggleLike_begin_def toggleBookmark_begin_def handleFollow_begin_def
      handleFollow_settle_def Let_def js_add_one js_sub_one)

theorem optimistic_write_ordering_witness:
  "Some alice = Some alice \<and> \<bar>likeCount card5\<bar> < 2 ^ 53 \<and> \<bar>followersCount screen0\<bar> < 2 ^ 53
   \<and> \<not> loading_likes card5 \<and> \<not> loading_bookmark card5
   \<and> failure (Reply (Some ()) None) = None
   \<and> toggleLike_begin (Some alice) ''p1'' card5 =
        (card5\<lparr>isLiked := True, likeCount := 6, loading_likes := True\<rparr>,
         [Supabase (Insert Likes ''p1'' ''u-alice'')], Some False)
   \<and> toggleBookmark_begin (Some alice) ''p1'' card5 =
        (card5\<lparr>isBookmarked := True, loading_bookmark := True\<rparr>,
         [Supabase (Insert Bookmarks ''p1'' ''u-alice'')], Some False)
   \<and> handleFollow_begin (Reply (Some alice) None) ''r1'' screen0 =
        (screen0, [Supabase (Insert Follows ''r1'' ''u-alice'')], Some False)
   \<and> handleFollow_settle False (Reply (Some ()) None) screen0 =
        (screen0\<lparr>isFollowing := True, followersCount := 1\<rparr>, [])"
  using optimistic_write_ordering [of "Some alice" alice card5 screen0 "''p1''" None "''r1''"
      "Reply (Some ()) None"]
  by (simp add: card5_def screen0_def alice_def)

text \<open>
  Claim C3 as stated does not hold for the follow toggle: a second \<^verbatim>\<open>handleFollow\<close> invoked
  while the first one is waiting for its answer issues a second insert.
\<close>

theorem follow_second_request_counterexample:
  "snd (snd (handleFollow_begin (Reply (Some alice) None) ''r1'' screen0)) = Some False
   \<and> fst (snd (handleFollow_begin (Reply (Some alice) None) ''r1''
        (fst (handleFollow_begin (Reply (Some alice) None) ''r1'' screen0)))) =
       [Supabase (Insert Follows ''r1'' ''u-alice'')]"
  by (simp add: handleFollow_begin_def screen0_def alice_def)

text \<open>
  Claim C3 (in-flight guard), as amended. For likes and for bookmarks, with a signed-in user:
  a toggle that has issued a request has set the loading flag of its kind, and a toggle
  invoked while that flag is set changes nothing, issues no request and leaves nothing
  pending, so it is dropped and not queued.
\<close>

theorem in_flight_guard:
  assumes "user = Some u"
  shows "(toggleLike_begin user post_id st = (st1, fx, Some w) \<longrightarrow>
            loading_likes st1 \<and> toggleLike_begin user post_id st1 = (st1, [], None))
       \<and> (toggleBookmark_begin user post_id st = (st2, fx', Some w') \<longrightarrow>
            loading_bookmark st2 \<and> toggleBookmark_begin user post_id st2 = (st2, [], None))
       \<and> (loading_likes st \<longrightarrow> toggleLike_begin user post_id st = (st, [], None))
       \<and> (loading_bookmark st \<longrightarrow> toggleBookmark_begin user post_id st = (st, [], None))
       \<and> (loading_likes st \<longrightarrow> toggleLike user post_id r st = (st, []))
       \<and> (loading_bookmark st \<longrightarrow> toggleBookmark user post_id r st = (st, []))"
  using assms
  by (auto simp add: toggleLike_begin_def toggleBookmark_begin_def toggleLike_def
      toggleBookmark_def Let_def split: if_splits)

theorem in_flight_guard_witness:
  "Some alice = Some alice
   \<and> toggleLike_begin (Some alice) ''p1'' card5 =
        (card5\<lparr>isLiked := True, likeCount := 6, loading_likes := True\<rparr>,
         [Supabase (Insert Likes ''p1'' ''u-alice'')], Some False)
   \<and> toggleLike_begin (Some alice) ''p1''
        (card5\<lparr>isLiked := True, likeCount := 6, loading_likes := True\<rparr>) =
        (card5\<lparr>isLiked := True, likeCount := 6, loading_likes := True\<rparr>, [], None)
   \<and> toggleBookmark_begin (Some alice) ''p1'' card5 =
        (card5\<lparr>isBookmarked := True, loading_bookmark := True\<rparr>,
         [Supabase (Insert Bookmarks ''p1'' ''u-alice'')], Some False)
   \<and> toggleBookmark_begin (Some alice) ''p1''
        (card5\<lparr>isBookmarked := True, loading_bookmark := True\<rparr>) =
        (card5\<lparr>isBookmarked := True, loading_bookmark := True\<rparr>, [], None)"
  using in_flight_guard [of "Some alice" alice "''p1''" card5
      "card5\<lparr>isLiked := True, likeCount := 6, loading_likes := True\<rparr>"
      "[Supabase (Insert Likes ''p1'' ''u-alice'')]" False
      "card5\<lparr>isBookmarked := True, loading_bookmark := True\<rparr>"
      "[Supabase (Insert Bookmarks ''p1'' ''u-alice'')]" False]
  by (simp add: card5_def alice_def toggleLike_begin_def toggleBookmark_begin_def js_add_one)

lemma toggleLike_navigates:
  "list_ex is_navigation (snd (toggleLike user post_id r st)) \<longleftrightarrow> user = None"
  by (cases user)
    (simp_all add: toggleLike_def toggleLike_begin_def toggleLike_settle_def Let_def
      split: option.splits)

lemma toggleBookmark_navigates:
  "list_ex is_navigation (snd (toggleBookmark user post_id r st)) \<longleftrightarrow> user = None"
  by (cases user)
    (simp_all add: toggleBookmark_def toggleBookmark_begin_def toggleBookmark_settle_def Let_def
      split: option.splits)

lemma handleFollow_navigates:
  "list_ex is_navigation (snd (handleFollow getUser restaurant_id r st)) \<longleftrightarrow>
     (\<exists>err. getUser = Reply None err)"
  by (simp add: handleFollow_def handleFollow_begin_def handleFollow_settle_def
      split: reply.splits option.splits)

lemma handleFollow_no_user:
  "handleFollow (Reply None err) restaurant_id r st = (st, [RouterPush ''/login''])"
  by (simp add: handleFollow_def handleFollow_begin_def)

lemma handleFollow_detail_failed:
  assumes "failure r = Some e" and "truthy restaurant_id"
  shows "handleFollow_detail restaurant_id (Reply (Some u) err) r getUser_again st =
           (st,
            [Supabase (if isFollowing st then Delete Follows restaurant_id (uid u)
                       else Insert Follows restaurant_id (uid u)),
             ConsoleError ''Error toggling follow:'' e]
            @ (case getUser_again of
                 Throws x \<Rightarrow> [UnhandledRejection x]
               | Reply None err' \<Rightarrow> [RouterPush ''/login'']
               | Reply (Some u') err' \<Rightarrow> []))"
  using assms
  by (simp add: handleFollow_detail_def toggleFollow_def split: reply.splits option.splits)

text \<open>
  Claim C8 as stated does not hold: a follow toggle of the restaurant profile screen (and
  likewise a like toggle of \<^verbatim>\<open>PostCard\<close>) whose request fails with an expired session logs
  the error and navigates nowhere.
\<close>

theorem auth_error_no_redirect_counterexample:
  "handleFollow (Reply (Some alice) None) ''r1'' (Reply None (Some jwt_expired)) screen0 =
     (screen0,
      [Supabase (Insert Follows ''r1'' ''u-alice''),
       ConsoleError ''Error following restaurant:'' jwt_expired])
   \<and> \<not> list_ex is_navigation
        (snd (handleFollow (Reply (Some alice) None) ''r1'' (Reply None (Some jwt_expired))
           screen0))
   \<and> \<not> list_ex is_navigation
        (snd (toggleLike (Some alice) ''p1'' (Reply None (Some jwt_expired)) card5))"
  by (simp add: handleFollow_def handleFollow_begin_def handleFollow_settle_def screen0_def
      alice_def toggleLike_def toggleLike_begin_def toggleLike_settle_def card5_def)

text \<open>
  Claim C8 (failures of the request), as amended. For the like and bookmark toggles of
  \<^verbatim>\<open>PostCard\<close> and the follow toggle of the restaurant profile screen: when the request
  fails, with an authentication error or with any other, a signed-in user sees the local
  state of before the toggle (the like counter being a count below \<open>2^53\<close>), the error is
  written to the console, and no navigation is fired. On every input, these three handlers
  navigate exactly when no user is present at the invocation, and then the navigation to
  \<^verbatim>\<open>/login\<close> is all they do: no request is issued. The follow toggle of the post detail
  screen does escalate: after a failed request it leaves the state as it was, logs, asks for
  the user again, and goes to \<^verbatim>\<open>/login\<close> exactly when that answer holds no user.
\<close>

theorem failed_toggle_logs_without_redirect:
  assumes "failure r = Some e" and "user = Some u" and "\<bar>likeCount st\<bar> < 2 ^ 53"
  shows "(\<not> loading_likes st \<longrightarrow>
            toggleLike user post_id r st =
              (st, [Supabase (if isLiked st then Delete Likes post_id (uid u)
                              else Insert Likes post_id (uid u)),
                    ConsoleError ''Error toggling like:'' e]))
       \<and> (\<not> loading_bookmark st \<longrightarrow>
            toggleBookmark user post_id r st =
              (st, [Supabase (if isBookmarked st then Delete Bookmarks post_id (uid u)
                              else Insert Bookmarks post_id (uid u)),
                    ConsoleError ''Error toggling bookmark:'' e]))
       \<and> handleFollow (Reply user err) restaurant_id r st' =
            (st', [Supabase (if isFollowing st' then Delete Follows restaurant_id (uid u)
                             else Insert Follows restaurant_id (uid u)),
                   ConsoleError ''Error following restaurant:'' e])
       \<and> \<not> list_ex is_navigation (snd (toggleLike user post_id r st))
       \<and> \<not> list_ex is_navigation (snd (toggleBookmark user post_id r st))
       \<and> \<not> list_ex is_navigation (snd (handleFollow (Reply user err) restaurant_id r st'))
       \<and> (list_ex is_navigation (snd (toggleLike any_user post_id any_reply st)) \<longleftrightarrow>
            any_user = None)
       \<and> (list_ex is_navigation (snd (toggleBookmark any_user post_id any_reply st)) \<longleftrightarrow>
            any_user = None)
       \<and> (list_ex is_navigation (snd (handleFollow getUser restaurant_id any_reply st')) \<longleftrightarrow>
            (\<exists>x. getUser = Reply None x))
       \<and> toggleLike None post_id any_reply st = (st, [RouterPush ''/login''])
       \<and> toggleBookmark None post_id any_reply st = (st, [RouterPush ''/login''])
       \<and> handleFollow (Reply None err) restaurant_id any_reply st' = (st', [RouterPush ''/login''])
       \<and> (truthy restaurant_id \<longrightarrow>
            handleFollow_detail restaurant_id (Reply user err) r getUser_again st' =
              (st',
               [Supabase (if isFollowing st' then Delete Follows restaurant_id (uid u)
                          else Insert Follows restaurant_id (uid u)),
                ConsoleError ''Error toggling follow:'' e]
               @ (case getUser_again of
                    Throws x \<Rightarrow> [UnhandledRejection x]
                  | Reply None err' \<Rightarrow> [RouterPush ''/login'']
                  | Reply (Some u') err' \<Rightarrow> []))
          \<and> (list_ex is_navigation
                (snd (handleFollow_detail restaurant_id (Reply user err) r getUser_again st')) \<longleftrightarrow>
              (\<exists>x. getUser_again = Reply None x)))"
proof -
  have like: "\<not> loading_likes st \<longrightarrow>
      toggleLike user post_id r st =
        (st, [Supabase (if isLiked st then Delete Likes post_id (uid u)
                        else Insert Likes post_id (uid u)),
              ConsoleError ''Error toggling like:'' e])"
  proof
    assume nl: "\<not> loading_likes st"
    have fx: "snd (toggleLike user post_id r st) =
        [Supabase (if isLiked st then Delete Likes post_id (uid u)
                   else Insert Likes post_id (uid u)),
         ConsoleError ''Error toggling like:'' e]"
      using assms(1,2) nl
      by (simp add: toggleLike_def toggleLike_begin_def toggleLike_settle_def Let_def)
    have "fst (toggleLike user post_id r st) = st"
      using assms(1,3) by (rule toggleLike_failed)
    with fx show "toggleLike user post_id r st =
        (st, [Supabase (if isLiked st then Delete Likes post_id (uid u)
                        else Insert Likes post_id (uid u)),
              ConsoleError ''Error toggling like:'' e])"
      by (simp add: prod_eq_iff)
  qed
  have bookmark: "\<not> loading_bookmark st \<longrightarrow>
      toggleBookmark user post_id r st =
        (st, [Supabase (if isBookmarked st then Delete Bookmarks post_id (uid u)
                        else Insert Bookmarks post_id (uid u)),
              ConsoleError ''Error toggling bookmark:'' e])"
    using assms(1,2)
    by (cases st)
      (simp add: toggleBookmark_def toggleBookmark_begin_def toggleBookmark_settle_def Let_def)
  have follow: "handleFollow (Reply user err) restaurant_id r st' =
      (st', [Supabase (if isFollowing st' then Delete Follows restaurant_id (uid u)
                       else Insert Follows restaurant_id (uid u)),
             ConsoleError ''Error following restaurant:'' e])"
    using assms(1,2)
    by (simp add: handleFollow_def handleFollow_begin_def handleFollow_settle_def)
  have nonav: "\<not> list_ex is_navigation (snd (toggleLike user post_id r st))"
    "\<not> list_ex is_navigation (snd (toggleBookmark user post_id r st))"
    "\<not> list_ex is_navigation (snd (handleFollow (Reply user err) restaurant_id r st'))"
    using assms(2)
    by (simp_all add: toggleLike_navigates toggleBookmark_navigates handleFollow_navigates)
  have detail: "truthy restaurant_id \<longrightarrow>
      handleFollow_detail restaurant_id (Reply user err) r getUser_again st' =
        (st',
         [Supabase (if isFollowing st' then Delete Follows restaurant_id (uid u)
                    else Insert Follows restaurant_id (uid u)),
          ConsoleError ''Error toggling follow:'' e]
         @ (case getUser_again of
              Throws x \<Rightarrow> [UnhandledRejection x]
            | Reply None err' \<Rightarrow> [RouterPush ''/login'']
            | Reply (Some u') err' \<Rightarrow> []))
      \<and> (list_ex is_navigation
            (snd (handleFollow_detail restaurant_id (Reply user err) r getUser_again st')) \<longleftrightarrow>
          (\<exists>x. getUser_again = Reply None x))"
  proof
    assume t: "truthy restaurant_id"
    note d = handleFollow_detail_failed [OF assms(1) t, of u err getUser_again st']
    have "list_ex is_navigation
            (snd (handleFollow_detail restaurant_id (Reply (Some u) err) r getUser_again st')) \<longleftrightarrow>
          (\<exists>x. getUser_again = Reply None x)"
      by (simp only: d snd_conv) (simp split: reply.splits option.splits)
    with d assms(2) show "handleFollow_detail restaurant_id (Reply user err) r getUser_again st' =
        (st',
         [Supabase (if isFollowing st' then Delete Follows restaurant_id (uid u)
                    else Insert Follows restaurant_id (uid u)),
          ConsoleError ''Error toggling follow:'' e]
         @ (case getUser_again of
              Throws x \<Rightarrow> [UnhandledRejection x]
            | Reply None err' \<Rightarrow> [RouterPush ''/login'']
            | Reply (Some u') err' \<Rightarrow> []))
      \<and> (list_ex is_navigation
            (snd (handleFollow_detail restaurant_id (Reply user err) r getUser_again st')) \<longleftrightarrow>
          (\<exists>x. getUser_again = Reply None x))"
      by simp
  qed
  have nouser: "toggleLike None post_id any_reply st = (st, [RouterPush ''/login''])"
    "toggleBookmark None post_id any_reply st = (st, [RouterPush ''/login''])"
    by (simp_all add: toggleLike_def toggleLike_begin_def toggleBookmark_def
        toggleBookmark_begin_def)
  show ?thesis
    using like bookmark follow nonav detail nouser
      toggleLike_navigates [of any_user post_id any_reply st]
      toggleBookmark_navigates [of any_user post_id any_reply st]
      handleFollow_navigates [of getUser restaurant_id any_reply st']
      handleFollow_no_user [of err restaurant_id any_reply st']
    by (intro conjI)
qed

theorem failed_toggle_logs_without_redirect_witness:
  "failure (Reply None (Some jwt_expired) :: unit reply) = Some jwt_expired
   \<and> Some alice = Some alice \<and> \<bar>likeCount card5\<bar> < 2 ^ 53
   \<and> \<not> loading_likes card5 \<and> \<not> loading_bookmark card5 \<and> truthy ''r1''
   \<and> toggleLike (Some alice) ''p1'' (Reply None (Some jwt_expired)) card5 =
        (card5, [Supabase (Insert Likes ''p1'' ''u-alice''),
                 ConsoleError ''Error toggling like:'' jwt_expired])
   \<and> toggleBookmark (Some alice) ''p1'' (Reply None (Some jwt_expired)) card5 =
        (card5, [Supabase (Insert Bookmarks ''p1'' ''u-alice''),
                 ConsoleError ''Error toggling bookmark:'' jwt_expired])
   \<and> handleFollow (Reply (Some alice) None) ''r1'' (Reply None (Some jwt_expired)) screen0 =
        (screen0, [Supabase (Insert Follows ''r1'' ''u-alice''),
                   ConsoleError ''Error following restaurant:'' jwt_expired])
   \<and> handleFollow_detail ''r1'' (Reply (Some alice) None) (Reply None (Some jwt_expired))
        (Reply None (Some jwt_expired)) screen0 =
        (screen0, [Supabase (Insert Follows ''r1'' ''u-alice''),
                   ConsoleError ''Error toggling follow:'' jwt_expired,
                   RouterPush ''/login''])"
  using failed_toggle_logs_without_redirect [of "Reply None (Some jwt_expired)" jwt_expired
      "Some alice" alice card5 "''p1''" None "''r1''" screen0 "Some alice" "Reply (Some ()) None"
      "Reply (Some alice) None" "Reply None (Some jwt_expired)"]
  by (simp add: card5_def screen0_def alice_def truthy_def)



section \<open>The stories library: visibility, seen marks, deletion\<close>

lemma sid_select_cols: "sid (select_cols profs s) = sid s"
  and created_at_select_cols: "created_at (select_cols profs s) = created_at s"
  by (simp_all add: select_cols_def)

lemma getUserStories_ok:
  "fst (getUserStories None tbl profs userId now) = user_stories_rows tbl profs userId now"
  by (simp add: getUserStories_def select_user_stories_def respond_def)

lemma getUserStories_fault:
  "fst (getUserStories (Some x) tbl profs userId now) = []"
  by (cases x) (simp_all add: getUserStories_def select_user_stories_def respond_def)

lemma user_stories_rows_sids:
  "sid ` set (user_stories_rows tbl profs userId now) =
     sid ` {s \<in> set tbl. user_id s = userId \<and> is_active s \<and> now < expires_at s}"
proof -
  have "sid ` set (user_stories_rows tbl profs userId now) =
        (\<lambda>s. sid (select_cols profs s)) `
          set (filter (\<lambda>s. user_id s = userId \<and> is_active s = True \<and> expires_at s > now) tbl)"
    by (simp only: user_stories_rows_def set_map image_image set_sort)
  then show ?thesis by (simp add: sid_select_cols)
qed

lemma user_stories_rows_sorted:
  "sorted (map created_at (user_stories_rows tbl profs userId now))"
proof -
  have "map created_at (user_stories_rows tbl profs userId now) =
        map created_at (sort_key created_at
          (filter (\<lambda>s. user_id s = userId \<and> is_active s = True \<and> expires_at s > now) tbl))"
    by (simp add: user_stories_rows_def created_at_select_cols comp_def)
  then show ?thesis by simp
qed

lemma user_stories_rows_empty:
  "user_stories_rows tbl profs userId now = [] \<longleftrightarrow>
     \<not> (\<exists>s \<in> set tbl. user_id s = userId \<and> is_active s \<and> now < expires_at s)"
proof -
  have "length (user_stories_rows tbl profs userId now) =
        length (filter (\<lambda>s. user_id s = userId \<and> is_active s = True \<and> expires_at s > now) tbl)"
    by (simp add: user_stories_rows_def)
  then have "user_stories_rows tbl profs userId now = [] \<longleftrightarrow>
        filter (\<lambda>s. user_id s = userId \<and> is_active s = True \<and> expires_at s > now) tbl = []"
    by (simp only: length_0_conv[symmetric])
  then show ?thesis by (simp add: filter_empty_conv)
qed

text \<open>
  Claim C4 (story visibility). Against a backend that answers, and a \<^verbatim>\<open>stories\<close> table whose
  ids are unique: a story of the table is among the rows returned by \<^verbatim>\<open>getUserStories\<close> for an
  author and an instant \<open>now\<close> exactly when it belongs to that author, is active, and \<open>now\<close>
  is strictly before its expiry; at \<open>now = expires_at\<close> it is left out. The rows come in
  ascending order of \<^verbatim>\<open>created_at\<close>, and there are none when no story qualifies.
\<close>

theorem story_visibility:
  assumes "distinct (map sid tbl)" and "s \<in> set tbl"
  shows "(sid s \<in> sid ` set (fst (getUserStories None tbl profs authorId now)) \<longleftrightarrow>
            user_id s = authorId \<and> is_active s \<and> now < expires_at s)
       \<and> (now = expires_at s \<longrightarrow>
            sid s \<notin> sid ` set (fst (getUserStories None tbl profs authorId now)))
       \<and> sorted (map created_at (fst (getUserStories None tbl profs authorId now)))
       \<and> (\<not> (\<exists>t \<in> set tbl. user_id t = authorId \<and> is_active t \<and> now < expires_at t) \<longrightarrow>
            fst (getUserStories None tbl profs authorId now) = [])"
proof -
  have inj: "inj_on sid (set tbl)"
    using assms(1) by (simp add: distinct_map)
  have mem: "sid s \<in> sid ` {t \<in> set tbl. user_id t = authorId \<and> is_active t \<and> now < expires_at t}
             \<longleftrightarrow> user_id s = authorId \<and> is_active s \<and> now < expires_at s"
  proof
    assume "sid s \<in> sid ` {t \<in> set tbl. user_id t = authorId \<and> is_active t \<and> now < expires_at t}"
    then obtain t where t: "t \<in> set tbl" "sid t = sid s"
      "user_id t = authorId \<and> is_active t \<and> now < expires_at t" by auto
    have "t = s" by (rule inj_onD[OF inj t(2) t(1) assms(2)])
    with t show "user_id s = authorId \<and> is_active s \<and> now < expires_at s" by simp
  next
    assume "user_id s = authorId \<and> is_active s \<and> now < expires_at s"
    with assms(2) show "sid s \<in> sid ` {t \<in> set tbl. user_id t = authorId \<and> is_active t \<and> now < expires_at t}"
      by blast
  qed
  have appears: "sid s \<in> sid ` set (fst (getUserStories None tbl profs authorId now)) \<longleftrightarrow>
      user_id s = authorId \<and> is_active s \<and> now < expires_at s"
    using mem by (simp only: getUserStories_ok user_stories_rows_sids)
  have boundary: "now = expires_at s \<longrightarrow>
      sid s \<notin> sid ` set (fst (getUserStories None tbl profs authorId now))"
    using appears by auto
  have ordered: "sorted (map created_at (fst (getUserStories None tbl profs authorId now)))"
    by (simp only: getUserStories_ok user_stories_rows_sorted)
  have none: "\<not> (\<exists>t \<in> set tbl. user_id t = authorId \<and> is_active t \<and> now < expires_at t) \<longrightarrow>
      fst (getUserStories None tbl profs authorId now) = []"
    by (simp only: getUserStories_ok user_stories_rows_empty) simp
  show ?thesis using appears boundary ordered none by (intro conjI)
qed

theorem story_visibility_witness:
  "distinct (map sid [story_a, story_b, story_c]) \<and> story_b \<in> set [story_a, story_b, story_c]
   \<and> map sid (fst (getUserStories None [story_a, story_b, story_c] [] ''u-bob'' 999)) =
        [''s-b'', ''s-a'']
   \<and> map sid (fst (getUserStories None [story_a, story_b, story_c] [] ''u-bob'' 1000)) = [''s-a'']
   \<and> (sid story_b \<in> sid ` set (fst (getUserStories None [story_a, story_b, story_c] [] ''u-bob'' 999)))
   \<and> (sid story_b \<notin> sid ` set (fst (getUserStories None [story_a, story_b, story_c] [] ''u-bob'' 1000)))"
  using story_visibility [of "[story_a, story_b, story_c]" story_b "[]" "''u-bob''" 999]
    story_visibility [of "[story_a, story_b, story_c]" story_b "[]" "''u-bob''" 1000]
  by (simp add: story_a_def story_b_def story_c_def getUserStories_def select_user_stories_def
      respond_def user_stories_rows_def select_cols_def)

lemma map_upsert_id: "map (\<lambda>r. if r = row then row else r) tbl = tbl"
  by (induction tbl) simp_all

lemma upsert_seen_simp:
  "upsert_seen row tbl = (if row \<in> set tbl then tbl else tbl @ [row])"
  by (simp add: upsert_seen_def map_upsert_id)

lemma count_list_distinct:
  "distinct xs \<Longrightarrow> count_list xs x = (if x \<in> set xs then 1 else 0)"
  by (induction xs) auto

lemma markStoryAsSeen_distinct:
  "distinct tbl \<Longrightarrow> distinct (fst (markStoryAsSeen f tbl storyId userId))"
  by (simp add: markStoryAsSeen_def upsert_seen_simp split: option.splits)

lemma markStoryAsSeen_set:
  "set (fst (markStoryAsSeen f tbl storyId userId)) =
     (if f = None then insert (storyId, userId) (set tbl) else set tbl)"
  by (auto simp add: markStoryAsSeen_def upsert_seen_simp split: option.splits)

lemma markStoryAsSeen_returns: "snd (snd (markStoryAsSeen f tbl storyId userId)) = None"
  by (simp add: markStoryAsSeen_def split: option.splits)

lemma markStoryAsSeen_logged:
  "fst (snd (markStoryAsSeen f tbl storyId userId)) =
     (case f of
        None \<Rightarrow> []
      | Some x \<Rightarrow> [ConsoleError ''Error marking story as seen:'' (fault_error x)])"
  by (simp add: markStoryAsSeen_def split: option.splits)

lemma calls_Cons:
  "markStoryAsSeen_calls (f # fs) tbl storyId userId =
     (fst (markStoryAsSeen_calls fs (fst (markStoryAsSeen f tbl storyId userId)) storyId userId),
      fst (snd (markStoryAsSeen f tbl storyId userId)) @
      fst (snd (markStoryAsSeen_calls fs (fst (markStoryAsSeen f tbl storyId userId)) storyId userId)),
      snd (snd (markStoryAsSeen f tbl storyId userId)) #
      snd (snd (markStoryAsSeen_calls fs (fst (markStoryAsSeen f tbl storyId userId)) storyId userId)))"
  by (simp split: prod.splits)

lemma calls_distinct:
  "distinct tbl \<Longrightarrow> distinct (fst (markStoryAsSeen_calls fs tbl storyId userId))"
proof (induction fs arbitrary: tbl)
  case Nil
  then show ?case by simp
next
  case (Cons f fs)
  from Cons.prems have "distinct (fst (markStoryAsSeen f tbl storyId userId))"
    by (rule markStoryAsSeen_distinct)
  from Cons.IH [OF this] show ?case by (simp only: calls_Cons fst_conv)
qed

lemma calls_set:
  "set (fst (markStoryAsSeen_calls fs tbl storyId userId)) =
     (if None \<in> set fs then insert (storyId, userId) (set tbl) else set tbl)"
proof (induction fs arbitrary: tbl)
  case Nil
  then show ?case by simp
next
  case (Cons f fs)
  have "set (fst (markStoryAsSeen_calls (f # fs) tbl storyId userId)) =
        (if None \<in> set fs
         then insert (storyId, userId) (set (fst (markStoryAsSeen f tbl storyId userId)))
         else set (fst (markStoryAsSeen f tbl storyId userId)))"
    by (simp only: calls_Cons fst_conv Cons.IH)
  then show ?case by (auto simp add: markStoryAsSeen_set)
qed

lemma calls_return:
  "snd (snd (markStoryAsSeen_calls fs tbl storyId userId)) = replicate (length fs) None"
proof (induction fs arbitrary: tbl)
  case Nil
  then show ?case by simp
next
  case (Cons f fs)
  have "snd (snd (markStoryAsSeen_calls (f # fs) tbl storyId userId)) =
        None # replicate (length fs) None"
    by (simp only: calls_Cons snd_conv Cons.IH markStoryAsSeen_returns)
  then show ?case by simp
qed

lemma calls_logged:
  "fst (snd (markStoryAsSeen_calls fs tbl storyId userId)) =
     map (\<lambda>x. ConsoleError ''Error marking story as seen:'' (fault_error x)) (failed_calls fs)"
proof (induction fs arbitrary: tbl)
  case Nil
  then show ?case by simp
next
  case (Cons f fs)
  have "fst (snd (markStoryAsSeen_calls (f # fs) tbl storyId userId)) =
        (case f of
           None \<Rightarrow> []
         | Some x \<Rightarrow> [ConsoleError ''Error marking story as seen:'' (fault_error x)])
        @ map (\<lambda>x. ConsoleError ''Error marking story as seen:'' (fault_error x)) (failed_calls fs)"
    by (simp only: calls_Cons fst_conv snd_conv Cons.IH markStoryAsSeen_logged)
  then show ?case by (cases f) simp_all
qed

text \<open>
  Claim C5 (marking a story as seen is idempotent and absorbs failures). On a
  \<^verbatim>\<open>seen_stories\<close> table without duplicate rows, after any sequence of calls of
  \<^verbatim>\<open>markStoryAsSeen\<close> for one pair, each of which may fail in either way, no call has handed an
  error to its caller, the pair has at most one row, exactly one row as soon as one of the
  calls reached the backend, and the rows of every other pair are as before. Every failed
  call has written its error to the console, once and in order, and a call that went
  through has written nothing.
\<close>

theorem markSeen_idempotent:
  assumes "distinct tbl"
  shows "snd (snd (markStoryAsSeen_calls fs tbl storyId viewerId)) = replicate (length fs) None
       \<and> count_list (fst (markStoryAsSeen_calls fs tbl storyId viewerId)) (storyId, viewerId) \<le> 1
       \<and> (None \<in> set fs \<longrightarrow>
            count_list (fst (markStoryAsSeen_calls fs tbl storyId viewerId)) (storyId, viewerId) = 1)
       \<and> (row \<noteq> (storyId, viewerId) \<longrightarrow>
            count_list (fst (markStoryAsSeen_calls fs tbl storyId viewerId)) row = count_list tbl row)
       \<and> snd (snd (markStoryAsSeen f tbl storyId viewerId)) = None
       \<and> fst (snd (markStoryAsSeen_calls fs tbl storyId viewerId)) =
           map (\<lambda>x. ConsoleError ''Error marking story as seen:'' (fault_error x)) (failed_calls fs)
       \<and> fst (snd (markStoryAsSeen f tbl storyId viewerId)) =
           (case f of
              None \<Rightarrow> []
            | Some x \<Rightarrow> [ConsoleError ''Error marking story as seen:'' (fault_error x)])"
proof -
  have d: "distinct (fst (markStoryAsSeen_calls fs tbl storyId viewerId))"
    using assms by (rule calls_distinct)
  have c: "count_list (fst (markStoryAsSeen_calls fs tbl storyId viewerId)) x =
      (if x \<in> (if None \<in> set fs then insert (storyId, viewerId) (set tbl) else set tbl)
       then 1 else 0)" for x
    using count_list_distinct [OF d, of x] by (simp only: calls_set)
  have c0: "count_list tbl x = (if x \<in> set tbl then 1 else 0)" for x
    using assms by (rule count_list_distinct)
  have counts:
    "count_list (fst (markStoryAsSeen_calls fs tbl storyId viewerId)) (storyId, viewerId) \<le> 1
     \<and> (None \<in> set fs \<longrightarrow>
          count_list (fst (markStoryAsSeen_calls fs tbl storyId viewerId)) (storyId, viewerId) = 1)
     \<and> (row \<noteq> (storyId, viewerId) \<longrightarrow>
          count_list (fst (markStoryAsSeen_calls fs tbl storyId viewerId)) row = count_list tbl row)"
    by (simp add: c c0)
  show ?thesis
    using counts calls_return [of fs tbl storyId viewerId]
      markStoryAsSeen_returns [of f tbl storyId viewerId]
      calls_logged [of fs tbl storyId viewerId]
      markStoryAsSeen_logged [of f tbl storyId viewerId]
    by (intro conjI) blast+
qed

theorem markSeen_idempotent_witness:
  "distinct ([] :: seen_story list)
   \<and> markStoryAsSeen_calls [None, None] [] ''s-a'' ''u-alice'' =
        ([(''s-a'', ''u-alice'')], [], [None, None])
   \<and> markStoryAsSeen_calls [Some (Rejected network_down), None, Some (ErrorResult jwt_expired)] []
        ''s-a'' ''u-alice'' =
        ([(''s-a'', ''u-alice'')],
         [ConsoleError ''Error marking story as seen:'' network_down,
          ConsoleError ''Error marking story as seen:'' jwt_expired],
         [None, None, None])
   \<and> count_list (fst (markStoryAsSeen_calls [None, None] [] ''s-a'' ''u-alice''))
        (''s-a'', ''u-alice'') = 1"
  using markSeen_idempotent [of "[]" "[None, None]" "''s-a''" "''u-alice''" "(''s-b'', ''u-alice'')" None]
  by (simp add: markStoryAsSeen_def upsert_seen_def)

text \<open>
  Claim C9 (frame of \<^verbatim>\<open>deleteStory\<close>). The table keeps its length and every row its place. A
  row whose id is the given id and whose author is the caller is the old row with
  \<^verbatim>\<open>is_active\<close> set to false, when the backend answered; every other row, a row with the given
  id but another author included, is the old row; a failed call changes no row.
\<close>

theorem deleteStory_frame:
  "length (fst (deleteStory f tbl storyId callerId)) = length tbl
   \<and> (\<forall>i < length tbl.
         (if f = None \<and> sid (tbl ! i) = storyId \<and> user_id (tbl ! i) = callerId
          then fst (deleteStory f tbl storyId callerId) ! i = (tbl ! i)\<lparr>is_active := False\<rparr>
          else fst (deleteStory f tbl storyId callerId) ! i = tbl ! i))
   \<and> (f \<noteq> None \<longrightarrow> fst (deleteStory f tbl storyId callerId) = tbl)"
  by (cases f) (simp_all add: deleteStory_def)

theorem deleteStory_frame_witness:
  "fst (deleteStory None [story_a, story_b, story_c] ''s-c'' ''u-bob'') = [story_a, story_b, story_c]
   \<and> fst (deleteStory None [story_a, story_b, story_c] ''s-c'' ''u-carol'') =
        [story_a, story_b, story_c\<lparr>is_active := False\<rparr>]
   \<and> fst (deleteStory (Some (Rejected network_down)) [story_a, story_b, story_c] ''s-c'' ''u-carol'') =
        [story_a, story_b, story_c]"
  using deleteStory_frame [of None "[story_a, story_b, story_c]" "''s-c''" "''u-bob''"]
    deleteStory_frame [of None "[story_a, story_b, story_c]" "''s-c''" "''u-carol''"]
  by (simp add: deleteStory_def story_a_def story_b_def story_c_def)


section \<open>The story viewer: loading and playback to the end\<close>

lemma leave_kind: "is_navigation (leave userId user)" "\<not> is_alert (leave userId user)"
  by (simp_all add: leave_def)

lemma mount_nothing_to_show:
  assumes "truthy userId"
    and "failure r = Some e \<or> r = Reply None None \<or> r = Reply (Some []) None"
  shows "fst (mount userId user r) = initial_viewer\<lparr>loading := False\<rparr>
       \<and> filter is_navigation (fst (snd (mount userId user r))) = [leave userId user]
       \<and> last (fst (snd (mount userId user r))) = leave userId user
       \<and> \<not> list_ex is_alert (fst (snd (mount userId user r)))
       \<and> \<not> snd (snd (mount userId user r))"
proof (cases r)
  case (Throws e')
  with assms(1) show ?thesis
    by (simp add: mount_def fetchStories_def fetchStories_finally_def playback_effect_def
        initial_viewer_def leave_kind)
next
  case (Reply d err)
  show ?thesis
  proof (cases err)
    case (Some e')
    with Reply assms(1) show ?thesis
      by (simp add: mount_def fetchStories_def fetchStories_finally_def playback_effect_def
          initial_viewer_def leave_kind)
  next
    case None
    with Reply assms(2) have "d = None \<or> d = Some []" by simp
    then show ?thesis
    proof
      assume "d = None"
      with Reply None assms(1) show ?thesis
        by (simp add: mount_def fetchStories_def fetchStories_finally_def playback_effect_def
            initial_viewer_def leave_kind)
    next
      assume "d = Some []"
      with Reply None assms(1) show ?thesis
        by (simp add: mount_def fetchStories_def fetchStories_finally_def playback_effect_def
            initial_viewer_def leave_kind)
    qed
  qed
qed

lemma mount_playing:
  assumes "truthy userId"
  shows "mount userId user (Reply (Some (first # rest)) None) =
           (case user of
              None \<Rightarrow>
                (\<lparr>stories = first # rest, currentIndex = 0, loading = False, progress = 0,
                  animating = True\<rparr>, [], False)
            | Some u \<Rightarrow>
                if truthy (uid u)
                then (\<lparr>stories = first # rest, currentIndex = 0, loading = True, progress = 0,
                       animating = True\<rparr>, [MarkStoryAsSeen (sid first) (uid u)], True)
                else (\<lparr>stories = first # rest, currentIndex = 0, loading = False, progress = 0,
                       animating = True\<rparr>, [], False))"
  using assms
  by (simp add: mount_def fetchStories_def fetchStories_finally_def playback_effect_def
      startProgressAnimation_def initial_viewer_def split: option.splits)

text \<open>
  Claim C7 (a load that fails or finds nothing). When the query of the viewer fails, by an
  error in the reply or by a rejected promise, or answers with no rows, the screen keeps an
  empty story list, stops loading, starts no animation, shows no alert, awaits nothing, and
  its one navigation is \<^verbatim>\<open>router.replace('/stories/create-story')\<close> when the viewed author is
  the signed-in user and \<^verbatim>\<open>router.back()\<close> otherwise. When the query answers with rows, the
  screen holds these rows at index 0 and the animation of the first story has been started
  from progress 0, without navigation or alert. \<^verbatim>\<open>loading\<close> is then already false for a
  viewer who is not signed in; for a signed-in viewer it is still true while the call that
  marks the first story is awaited, and the \<^verbatim>\<open>finally\<close> block clears it, and nothing else,
  when that call has returned.
\<close>

theorem empty_or_failed_load:
  assumes "truthy userId"
  shows "(failure r = Some e \<or> r = Reply None None \<or> r = Reply (Some []) None \<longrightarrow>
            fst (mount userId user r) = initial_viewer\<lparr>loading := False\<rparr>
          \<and> \<not> animating (fst (mount userId user r))
          \<and> filter is_navigation (fst (snd (mount userId user r))) = [leave userId user]
          \<and> last (fst (snd (mount userId user r))) = leave userId user
          \<and> \<not> list_ex is_alert (fst (snd (mount userId user r)))
          \<and> \<not> snd (snd (mount userId user r)))
       \<and> leave userId None = RouterBack
       \<and> leave userId (Some u) =
            (if uid u = userId then RouterReplace ''/stories/create-story'' else RouterBack)
       \<and> stories (fst (mount userId user (Reply (Some (first # rest)) None))) = first # rest
       \<and> currentIndex (fst (mount userId user (Reply (Some (first # rest)) None))) = 0
       \<and> progress (fst (mount userId user (Reply (Some (first # rest)) None))) = 0
       \<and> animating (fst (mount userId user (Reply (Some (first # rest)) None)))
       \<and> loading (fst (mount userId user (Reply (Some (first # rest)) None))) =
            snd (snd (mount userId user (Reply (Some (first # rest)) None)))
       \<and> snd (snd (mount userId user (Reply (Some (first # rest)) None))) =
            (case user of None \<Rightarrow> False | Some v \<Rightarrow> truthy (uid v))
       \<and> fetchStories_finally (fst (mount userId user (Reply (Some (first # rest)) None))) =
            (fst (mount userId user (Reply (Some (first # rest)) None)))\<lparr>loading := False\<rparr>
       \<and> \<not> list_ex is_navigation (fst (snd (mount userId user (Reply (Some (first # rest)) None))))
       \<and> \<not> list_ex is_alert (fst (snd (mount userId user (Reply (Some (first # rest)) None))))"
proof -
  note p = mount_playing [OF assms, of user first rest]
  have playing:
    "stories (fst (mount userId user (Reply (Some (first # rest)) None))) = first # rest"
    "currentIndex (fst (mount userId user (Reply (Some (first # rest)) None))) = 0"
    "progress (fst (mount userId user (Reply (Some (first # rest)) None))) = 0"
    "animating (fst (mount userId user (Reply (Some (first # rest)) None)))"
    "loading (fst (mount userId user (Reply (Some (first # rest)) None))) =
       snd (snd (mount userId user (Reply (Some (first # rest)) None)))"
    "snd (snd (mount userId user (Reply (Some (first # rest)) None))) =
       (case user of None \<Rightarrow> False | Some v \<Rightarrow> truthy (uid v))"
    "\<not> list_ex is_navigation (fst (snd (mount userId user (Reply (Some (first # rest)) None))))"
    "\<not> list_ex is_alert (fst (snd (mount userId user (Reply (Some (first # rest)) None))))"
    by (simp_all add: p split: option.splits)
  have fin: "fetchStories_finally (fst (mount userId user (Reply (Some (first # rest)) None))) =
      (fst (mount userId user (Reply (Some (first # rest)) None)))\<lparr>loading := False\<rparr>"
    by (simp only: fetchStories_finally_def)
  have lv: "leave userId None = RouterBack"
    "leave userId (Some u) =
       (if uid u = userId then RouterReplace ''/stories/create-story'' else RouterBack)"
    by (simp_all add: leave_def)
  have no_rows: "failure r = Some e \<or> r = Reply None None \<or> r = Reply (Some []) None \<longrightarrow>
        fst (mount userId user r) = initial_viewer\<lparr>loading := False\<rparr>
      \<and> \<not> animating (fst (mount userId user r))
      \<and> filter is_navigation (fst (snd (mount userId user r))) = [leave userId user]
      \<and> last (fst (snd (mount userId user r))) = leave userId user
      \<and> \<not> list_ex is_alert (fst (snd (mount userId user r)))
      \<and> \<not> snd (snd (mount userId user r))"
  proof
    assume a: "failure r = Some e \<or> r = Reply None None \<or> r = Reply (Some []) None"
    note n = mount_nothing_to_show [OF assms a, of user]
    from n have "\<not> animating (fst (mount userId user r))"
      by (simp add: initial_viewer_def)
    with n show "fst (mount userId user r) = initial_viewer\<lparr>loading := False\<rparr>
      \<and> \<not> animating (fst (mount userId user r))
      \<and> filter is_navigation (fst (snd (mount userId user r))) = [leave userId user]
      \<and> last (fst (snd (mount userId user r))) = leave userId user
      \<and> \<not> list_ex is_alert (fst (snd (mount userId user r)))
      \<and> \<not> snd (snd (mount userId user r))"
      by blast
  qed
  from lv playing fin
  have rest: "leave userId None = RouterBack
       \<and> leave userId (Some u) =
            (if uid u = userId then RouterReplace ''/stories/create-story'' else RouterBack)
       \<and> stories (fst (mount userId user (Reply (Some (first # rest)) None))) = first # rest
       \<and> currentIndex (fst (mount userId user (Reply (Some (first # rest)) None))) = 0
       \<and> progress (fst (mount userId user (Reply (Some (first # rest)) None))) = 0
       \<and> animating (fst (mount userId user (Reply (Some (first # rest)) None)))
       \<and> loading (fst (mount userId user (Reply (Some (first # rest)) None))) =
            snd (snd (mount userId user (Reply (Some (first # rest)) None)))
       \<and> snd (snd (mount userId user (Reply (Some (first # rest)) None))) =
            (case user of None \<Rightarrow> False | Some v \<Rightarrow> truthy (uid v))
       \<and> fetchStories_finally (fst (mount userId user (Reply (Some (first # rest)) None))) =
            (fst (mount userId user (Reply (Some (first # rest)) None)))\<lparr>loading := False\<rparr>
       \<and> \<not> list_ex is_navigation (fst (snd (mount userId user (Reply (Some (first # rest)) None))))
       \<and> \<not> list_ex is_alert (fst (snd (mount userId user (Reply (Some (first # rest)) None))))"
    by blast
  from no_rows rest show ?thesis by (rule conjI)
qed

theorem empty_or_failed_load_witness:
  "truthy ''u-bob''
   \<and> mount ''u-bob'' (Some alice) (Throws network_down) =
        (initial_viewer\<lparr>loading := False\<rparr>,
         [ConsoleError ''Error fetching stories:'' network_down, RouterBack], False)
   \<and> mount ''u-alice'' (Some alice) (Reply (Some []) None) =
        (initial_viewer\<lparr>loading := False\<rparr>, [RouterReplace ''/stories/create-story''], False)
   \<and> mount ''u-bob'' (Some alice) (select_user_stories None [story_a, story_b, story_c] [] ''u-bob'' 999) =
        (\<lparr>stories = [select_cols [] story_b, select_cols [] story_a], currentIndex = 0,
          loading = True, progress = 0, animating = True\<rparr>,
         [MarkStoryAsSeen ''s-b'' ''u-alice''], True)
   \<and> mount ''u-bob'' None (select_user_stories None [story_a, story_b, story_c] [] ''u-bob'' 999) =
        (\<lparr>stories = [select_cols [] story_b, select_cols [] story_a], currentIndex = 0,
          loading = False, progress = 0, animating = True\<rparr>, [], False)"
  using empty_or_failed_load [of "''u-bob''" "Throws network_down" network_down "Some alice" alice
      "select_cols [] story_b" "[select_cols [] story_a]"]
  by (simp add: truthy_def mount_def fetchStories_def fetchStories_finally_def
      playback_effect_def startProgressAnimation_def initial_viewer_def leave_def alice_def
      select_user_stories_def respond_def user_stories_rows_def story_a_def story_b_def
      story_c_def select_cols_def)

lemma animation_finished_advance:
  assumes "truthy (uid u)" and "Suc (currentIndex st) < length (stories st)" and "animating st"
  shows "stories (fst (animation_finished (Some u) st)) = stories st
       \<and> currentIndex (fst (animation_finished (Some u) st)) = Suc (currentIndex st)
       \<and> progress (fst (animation_finished (Some u) st)) = 0
       \<and> animating (fst (animation_finished (Some u) st))
       \<and> snd (animation_finished (Some u) st) =
            [MarkStoryAsSeen (sid (stories st ! Suc (currentIndex st))) (uid u)]"
proof -
  from assms(2) have "stories st \<noteq> []" by auto
  with assms show ?thesis
    by (simp add: animation_finished_def goToNextStory_def playback_effect_def
        startProgressAnimation_def Let_def)
qed

lemma animation_finished_advance_anonymous:
  assumes "Suc (currentIndex st) < length (stories st)" and "animating st"
  shows "stories (fst (animation_finished None st)) = stories st
       \<and> currentIndex (fst (animation_finished None st)) = Suc (currentIndex st)
       \<and> animating (fst (animation_finished None st))
       \<and> snd (animation_finished None st) = []"
proof -
  from assms have "stories st \<noteq> []" by auto
  with assms show ?thesis
    by (simp add: animation_finished_def goToNextStory_def playback_effect_def
        startProgressAnimation_def Let_def)
qed

lemma animation_finished_last:
  assumes "\<not> Suc (currentIndex st) < length (stories st)" and "animating st"
  shows "animation_finished user st = (st\<lparr>progress := 1, animating := False\<rparr>, [RouterBack])"
  using assms
  by (simp add: animation_finished_def goToNextStory_def)

lemma play_Suc:
  "play (Suc n) user st =
     (if RouterBack \<in> set (snd (animation_finished user st)) then animation_finished user st
      else (fst (play n user (fst (animation_finished user st))),
            snd (animation_finished user st) @ snd (play n user (fst (animation_finished user st)))))"
  by (simp split: prod.splits)

text \<open>The playback neither reads nor writes \<^verbatim>\<open>loading\<close>.\<close>

lemma animation_finished_loading:
  "animation_finished user (st\<lparr>loading := b\<rparr>) =
     ((fst (animation_finished user st))\<lparr>loading := b\<rparr>, snd (animation_finished user st))"
  by (cases st)
    (simp add: animation_finished_def goToNextStory_def playback_effect_def
      startProgressAnimation_def Let_def split: option.splits)

lemma play_loading:
  "play n user (st\<lparr>loading := b\<rparr>) =
     ((fst (play n user st))\<lparr>loading := b\<rparr>, snd (play n user st))"
proof (induction n arbitrary: st)
  case 0
  then show ?case by simp
next
  case (Suc n)
  show ?case
    by (simp only: play_Suc animation_finished_loading fst_conv snd_conv Suc.IH)
      (simp add: prod_eq_iff)
qed

lemma play_exhaust:
  assumes "truthy (uid u)"
  shows "animating st \<Longrightarrow> currentIndex st < length (stories st) \<Longrightarrow>
         length (stories st) - currentIndex st \<le> n \<Longrightarrow>
         snd (play n (Some u) st) =
           map (\<lambda>s. MarkStoryAsSeen (sid s) (uid u)) (drop (Suc (currentIndex st)) (stories st))
           @ [RouterBack]
         \<and> currentIndex (fst (play n (Some u) st)) = length (stories st) - 1
         \<and> stories (fst (play n (Some u) st)) = stories st"
proof (induction n arbitrary: st)
  case 0
  then show ?case by simp
next
  case (Suc n)
  show ?case
  proof (cases "Suc (currentIndex st) < length (stories st)")
    case True
    let ?st1 = "fst (animation_finished (Some u) st)"
    note adv = animation_finished_advance [OF assms True Suc.prems(1)]
    have nb: "RouterBack \<notin> set (snd (animation_finished (Some u) st))"
      using adv by simp
    have "animating ?st1" using adv by simp
    moreover have "currentIndex ?st1 < length (stories ?st1)" using adv True by simp
    moreover have "length (stories ?st1) - currentIndex ?st1 \<le> n" using adv Suc.prems by simp
    ultimately have ih:
      "snd (play n (Some u) ?st1) =
         map (\<lambda>s. MarkStoryAsSeen (sid s) (uid u)) (drop (Suc (currentIndex ?st1)) (stories ?st1))
         @ [RouterBack]
       \<and> currentIndex (fst (play n (Some u) ?st1)) = length (stories ?st1) - 1
       \<and> stories (fst (play n (Some u) ?st1)) = stories ?st1"
      by (rule Suc.IH)
    have unfold: "play (Suc n) (Some u) st =
        (fst (play n (Some u) ?st1), snd (animation_finished (Some u) st) @ snd (play n (Some u) ?st1))"
      using nb by (simp only: play_Suc if_False)
    have "drop (Suc (currentIndex st)) (stories st) =
          stories st ! Suc (currentIndex st) # drop (Suc (Suc (currentIndex st))) (stories st)"
      using True by (simp add: Cons_nth_drop_Suc)
    then show ?thesis
      using ih adv by (simp only: unfold fst_conv snd_conv) simp
  next
    case False
    with Suc.prems have "drop (Suc (currentIndex st)) (stories st) = []"
      and "currentIndex st = length (stories st) - 1" by simp_all
    then show ?thesis
      by (simp add: play_Suc animation_finished_last [OF False Suc.prems(1)] del: play.simps)
  qed
qed

lemma play_exhaust_anonymous:
  "animating st \<Longrightarrow> currentIndex st < length (stories st) \<Longrightarrow>
   length (stories st) - currentIndex st \<le> n \<Longrightarrow>
     snd (play n None st) = [RouterBack]"
proof (induction n arbitrary: st)
  case 0
  then show ?case by simp
next
  case (Suc n)
  show ?case
  proof (cases "Suc (currentIndex st) < length (stories st)")
    case True
    let ?st1 = "fst (animation_finished None st)"
    note adv = animation_finished_advance_anonymous [OF True Suc.prems(1)]
    have "animating ?st1" using adv by simp
    moreover have "currentIndex ?st1 < length (stories ?st1)" using adv True by simp
    moreover have "length (stories ?st1) - currentIndex ?st1 \<le> n" using adv Suc.prems by simp
    ultimately have "snd (play n None ?st1) = [RouterBack]" by (rule Suc.IH)
    then show ?thesis using adv by (simp add: play_Suc del: play.simps)
  next
    case False
    then show ?thesis
      by (simp add: play_Suc animation_finished_last [OF False Suc.prems(1)] del: play.simps)
  qed
qed

lemma play_steps:
  assumes "truthy (uid u)"
  shows "animating st \<Longrightarrow> currentIndex st + k < length (stories st) \<Longrightarrow>
         snd (play k (Some u) st) =
           map (\<lambda>s. MarkStoryAsSeen (sid s) (uid u))
             (take k (drop (Suc (currentIndex st)) (stories st)))
         \<and> currentIndex (fst (play k (Some u) st)) = currentIndex st + k
         \<and> stories (fst (play k (Some u) st)) = stories st"
proof (induction k arbitrary: st)
  case 0
  then show ?case by simp
next
  case (Suc k)
  have True: "Suc (currentIndex st) < length (stories st)" using Suc.prems by simp
  let ?st1 = "fst (animation_finished (Some u) st)"
  note adv = animation_finished_advance [OF assms True Suc.prems(1)]
  have nb: "RouterBack \<notin> set (snd (animation_finished (Some u) st))"
    using adv by simp
  have "animating ?st1" using adv by simp
  moreover have "currentIndex ?st1 + k < length (stories ?st1)" using adv Suc.prems by simp
  ultimately have ih:
    "snd (play k (Some u) ?st1) =
       map (\<lambda>s. MarkStoryAsSeen (sid s) (uid u))
         (take k (drop (Suc (currentIndex ?st1)) (stories ?st1)))
     \<and> currentIndex (fst (play k (Some u) ?st1)) = currentIndex ?st1 + k
     \<and> stories (fst (play k (Some u) ?st1)) = stories ?st1"
    by (rule Suc.IH)
  have unfold: "play (Suc k) (Some u) st =
      (fst (play k (Some u) ?st1), snd (animation_finished (Some u) st) @ snd (play k (Some u) ?st1))"
    using nb by (simp only: play_Suc if_False)
  have "drop (Suc (currentIndex st)) (stories st) =
        stories st ! Suc (currentIndex st) # drop (Suc (Suc (currentIndex st))) (stories st)"
    using True by (simp add: Cons_nth_drop_Suc)
  then show ?case
    using ih adv by (simp only: unfold fst_conv snd_conv) simp
qed

lemma seen_calls_marks:
  "seen_calls (map (\<lambda>s. MarkStoryAsSeen (sid s) v) rows @ fx) = map (\<lambda>s. (sid s, v)) rows @ seen_calls fx"
  by (induction rows) simp_all

lemma watch_rows:
  assumes "truthy userId"
  shows "truthy (uid u) \<Longrightarrow>
         watch n userId (Some u) (Reply (Some (first # rest)) None) =
           (fst (play n (Some u)
                  \<lparr>stories = first # rest, currentIndex = 0, loading = False, progress = 0,
                   animating = True\<rparr>),
            MarkStoryAsSeen (sid first) (uid u) #
            snd (play n (Some u)
                  \<lparr>stories = first # rest, currentIndex = 0, loading = False, progress = 0,
                   animating = True\<rparr>))"
    and "watch n userId None (Reply (Some (first # rest)) None) =
           (fst (play n None
                  \<lparr>stories = first # rest, currentIndex = 0, loading = False, progress = 0,
                   animating = True\<rparr>),
            snd (play n None
                  \<lparr>stories = first # rest, currentIndex = 0, loading = False, progress = 0,
                   animating = True\<rparr>))"
  by (simp_all add: watch_def mount_playing [OF assms] fetchStories_finally_def
      split: prod.splits)

text \<open>
  Claim C6 as stated does not hold when nobody is signed in: for an author with one active
  story the session runs to its end and exits, and no story is marked as seen.
\<close>

theorem no_viewer_no_seen_marks_counterexample:
  "length (user_stories_rows [story_a, story_b, story_c] [] ''u-carol'' 0) = 1
   \<and> snd (watch 1 ''u-carol'' None
        (select_user_stories None [story_a, story_b, story_c] [] ''u-carol'' 0)) = [RouterBack]
   \<and> length (seen_calls (snd (watch 1 ''u-carol'' None
        (select_user_stories None [story_a, story_b, story_c] [] ''u-carol'' 0)))) \<noteq> 1"
  by (simp add: watch_def mount_def fetchStories_def fetchStories_finally_def playback_effect_def
      startProgressAnimation_def initial_viewer_def animation_finished_def goToNextStory_def
      truthy_def select_user_stories_def respond_def user_stories_rows_def story_a_def
      story_b_def story_c_def select_cols_def)

text \<open>
  Claim C6 (viewer exhaustion), as amended. A signed-in viewer opens the stories of an
  author who has \<open>N \<ge> 1\<close> visible stories and lets every timer expire. The effects are then
  exactly one \<^verbatim>\<open>markStoryAsSeen\<close> call per story, in the order of the rows (ascending
  \<^verbatim>\<open>created_at\<close>), followed by \<^verbatim>\<open>router.back()\<close>; after \<open>k < N\<close> expiries the screen is at
  index \<open>k\<close> and the first \<open>k + 1\<close> stories have been marked; \<open>N\<close> expiries are enough,
  and further ones change nothing. Without a signed-in viewer the session ends in the same
  way with no call at all.
\<close>

theorem viewer_exhaustion:
  assumes "truthy userId" and "truthy (uid u)"
    and "rows = user_stories_rows tbl profs userId now" and "rows \<noteq> []" and "length rows \<le> n"
  shows "snd (watch n userId (Some u) (select_user_stories None tbl profs userId now)) =
           map (\<lambda>s. MarkStoryAsSeen (sid s) (uid u)) rows @ [RouterBack]
       \<and> seen_calls (snd (watch n userId (Some u) (select_user_stories None tbl profs userId now))) =
           map (\<lambda>s. (sid s, uid u)) rows
       \<and> length (seen_calls
            (snd (watch n userId (Some u) (select_user_stories None tbl profs userId now)))) =
           length rows
       \<and> sorted (map created_at rows)
       \<and> currentIndex (fst (watch n userId (Some u) (select_user_stories None tbl profs userId now))) =
           length rows - 1
       \<and> (\<forall>k < length rows.
            currentIndex
              (fst (watch k userId (Some u) (select_user_stories None tbl profs userId now))) = k
            \<and> seen_calls
                (snd (watch k userId (Some u) (select_user_stories None tbl profs userId now))) =
              map (\<lambda>s. (sid s, uid u)) (take (Suc k) rows))
       \<and> snd (watch n userId None (select_user_stories None tbl profs userId now)) = [RouterBack]"
proof -
  obtain first rest where rows: "rows = first # rest"
    using assms(4) by (cases rows) auto
  have r: "select_user_stories None tbl profs userId now = Reply (Some (first # rest)) None"
    using assms(3) rows by (simp add: select_user_stories_def respond_def)
  let ?r = "Reply (Some (first # rest)) None :: story_row list reply"
  let ?st0 = "\<lparr>stories = first # rest, currentIndex = 0, loading = False, progress = 0,
               animating = True\<rparr>"
  note w = watch_rows [OF assms(1)]
  have wu: "watch m userId (Some u) ?r =
      (fst (play m (Some u) ?st0), MarkStoryAsSeen (sid first) (uid u) # snd (play m (Some u) ?st0))"
    for m using assms(2) by (rule w(1))
  have wn: "watch n userId None ?r = (fst (play n None ?st0), snd (play n None ?st0))"
    by (rule w(2))
  have st0: "stories ?st0 = rows" "currentIndex ?st0 = 0" "animating ?st0"
    using rows by simp_all
  have "currentIndex ?st0 < length (stories ?st0)"
    and "length (stories ?st0) - currentIndex ?st0 \<le> n"
    using rows assms(5) by simp_all
  note bounds = this
  from play_exhaust [OF assms(2) st0(3) bounds]
  have ex: "snd (play n (Some u) ?st0) =
        map (\<lambda>s. MarkStoryAsSeen (sid s) (uid u)) rest @ [RouterBack]"
      "currentIndex (fst (play n (Some u) ?st0)) = length rows - 1"
    using rows by simp_all
  have all: "snd (watch n userId (Some u) ?r) =
      map (\<lambda>s. MarkStoryAsSeen (sid s) (uid u)) rows @ [RouterBack]"
    by (simp only: wu snd_conv ex(1) rows) simp
  have calls: "seen_calls (snd (watch n userId (Some u) ?r)) = map (\<lambda>s. (sid s, uid u)) rows"
    by (simp only: all seen_calls_marks) simp
  have idx: "currentIndex (fst (watch n userId (Some u) ?r)) = length rows - 1"
    by (simp only: wu fst_conv ex(2))
  have srt: "sorted (map created_at rows)"
    by (simp only: assms(3) user_stories_rows_sorted)
  have steps: "currentIndex (fst (watch k userId (Some u) ?r)) = k
      \<and> seen_calls (snd (watch k userId (Some u) ?r)) = map (\<lambda>s. (sid s, uid u)) (take (Suc k) rows)"
    if "k < length rows" for k
  proof -
    have "currentIndex ?st0 + k < length (stories ?st0)" using rows that by simp
    from play_steps [OF assms(2) st0(3) this]
    have ps: "snd (play k (Some u) ?st0) = map (\<lambda>s. MarkStoryAsSeen (sid s) (uid u)) (take k rest)"
        "currentIndex (fst (play k (Some u) ?st0)) = k"
      using rows by simp_all
    have "snd (watch k userId (Some u) ?r) =
        map (\<lambda>s. MarkStoryAsSeen (sid s) (uid u)) (take (Suc k) rows) @ []"
      by (simp only: wu snd_conv ps(1) rows) simp
    then have "seen_calls (snd (watch k userId (Some u) ?r)) =
        map (\<lambda>s. (sid s, uid u)) (take (Suc k) rows)"
      by (simp only: seen_calls_marks) simp
    moreover have "currentIndex (fst (watch k userId (Some u) ?r)) = k"
      by (simp only: wu fst_conv ps(2))
    ultimately show ?thesis by simp
  qed
  from play_exhaust_anonymous [OF st0(3) bounds]
  have anon: "snd (watch n userId None ?r) = [RouterBack]"
    by (simp only: wn snd_conv)
  show ?thesis
    using all calls idx srt steps anon by (simp only: r) simp
qed

theorem viewer_exhaustion_witness:
  "truthy ''u-bob'' \<and> truthy (uid alice)
   \<and> user_stories_rows [story_a, story_b, story_c] [] ''u-bob'' 0 \<noteq> []
   \<and> length (user_stories_rows [story_a, story_b, story_c] [] ''u-bob'' 0) \<le> 2
   \<and> snd (watch 2 ''u-bob'' (Some alice)
        (select_user_stories None [story_a, story_b, story_c] [] ''u-bob'' 0)) =
       [MarkStoryAsSeen ''s-b'' ''u-alice'', MarkStoryAsSeen ''s-a'' ''u-alice'', RouterBack]"
proof -
  have rows: "user_stories_rows [story_a, story_b, story_c] [] ''u-bob'' 0 =
      [select_cols [] story_b, select_cols [] story_a]"
    by (simp add: user_stories_rows_def story_a_def story_b_def story_c_def)
  have t: "truthy ''u-bob''" "truthy (uid alice)"
    by (simp_all add: truthy_def alice_def)
  have ne: "user_stories_rows [story_a, story_b, story_c] [] ''u-bob'' 0 \<noteq> []"
    and le: "length (user_stories_rows [story_a, story_b, story_c] [] ''u-bob'' 0) \<le> 2"
    by (simp_all add: rows)
  from viewer_exhaustion [OF t refl ne le]
  have "snd (watch 2 ''u-bob'' (Some alice)
        (select_user_stories None [story_a, story_b, story_c] [] ''u-bob'' 0)) =
       map (\<lambda>s. MarkStoryAsSeen (sid s) (uid alice))
         (user_stories_rows [story_a, story_b, story_c] [] ''u-bob'' 0) @ [RouterBack]"
    by (rule conjunct1)
  then have "snd (watch 2 ''u-bob'' (Some alice)
        (select_user_stories None [story_a, story_b, story_c] [] ''u-bob'' 0)) =
       [MarkStoryAsSeen ''s-b'' ''u-alice'', MarkStoryAsSeen ''s-a'' ''u-alice'', RouterBack]"
    by (simp only: rows) (simp add: select_cols_def story_a_def story_b_def alice_def)
  with t ne le show ?thesis by simp
qed

end
